theory Spec2Isabelle
  imports Main "HOL-Library.Char_ord" "HOL-Library.List_Lexorder"
begin

section \<open>makemake.go: from pom.xml descriptors to a Makefile\<close>

text \<open>
  The program walks the directory \<^verbatim>\<open>grammars-v4\<close>, parses every \<^verbatim>\<open>pom.xml\<close> it
  finds, keeps the projects that configure the Antlr plugin and list at least one
  grammar, and renders a Makefile from them. Go strings are byte sequences and are
  modelled by \<^typ>\<open>string\<close>; their order (\<^verbatim>\<open>sort.Strings\<close>, the key order of a
  template's \<^verbatim>\<open>range\<close>) is the lexicographic order on bytes, which is the order of
  \<^typ>\<open>char list\<close> here.
\<close>

subsection \<open>Strings\<close>

text \<open>\<^verbatim>\<open>strings.HasSuffix(s, suffix)\<close>:
  \<^verbatim>\<open>len(s) >= len(suffix) && s[len(s)-len(suffix):] == suffix\<close>.\<close>

definition HasSuffix :: "string \<Rightarrow> string \<Rightarrow> bool" where
  "HasSuffix s suffix \<longleftrightarrow>
     length s \<ge> length suffix \<and> drop (length s - length suffix) s = suffix"

text \<open>\<^verbatim>\<open>strings.Join(elems, sep)\<close>.\<close>

fun Join :: "string list \<Rightarrow> string \<Rightarrow> string" where
  "Join [] sep = []"
| "Join [x] sep = x"
| "Join (x # y # zs) sep = x @ sep @ Join (y # zs) sep"

text \<open>The template function \<^verbatim>\<open>Concat\<close>: the loop appends every argument to
  \<^verbatim>\<open>results\<close>, which starts empty.\<close>

fun Concat_loop :: "string \<Rightarrow> string list \<Rightarrow> string" where
  "Concat_loop results [] = results"
| "Concat_loop results (s # strings) = Concat_loop (results @ s) strings"

definition Concat :: "string list \<Rightarrow> string" where
  "Concat strings = Concat_loop [] strings"

subsection \<open>The ignore list\<close>

definition GRAMMARS_ROOT :: string where
  "GRAMMARS_ROOT = ''grammars-v4''"

definition IGNORE :: "string list" where
  "IGNORE = [''objc'', ''swift-fin'']"

text \<open>The loop of \<^verbatim>\<open>onIgnoreList\<close> over a list of ignored project names: it
  returns at the first name whose \<^verbatim>\<open>"/"+ignore+"/pom.xml"\<close> ends the path.\<close>

fun onIgnoreList_loop :: "string list \<Rightarrow> string \<Rightarrow> bool" where
  "onIgnoreList_loop [] path = False"
| "onIgnoreList_loop (ignore # rest) path =
     (if HasSuffix path (''/'' @ ignore @ ''/pom.xml'') then True
      else onIgnoreList_loop rest path)"

definition onIgnoreList :: "string \<Rightarrow> bool" where
  "onIgnoreList path = onIgnoreList_loop IGNORE path"

subsection \<open>Projects, events and the walk\<close>

type_synonym error = string

text \<open>
  \<^verbatim>\<open>internal.Project\<close> and \<^verbatim>\<open>internal.ParsePom\<close> belong to the package
  \<^verbatim>\<open>internal\<close>, which \<^verbatim>\<open>makemake.go\<close> imports. \<^verbatim>\<open>main\<close> reads the fields
  \<^verbatim>\<open>FoundAntlr4MavenPlugin\<close> and \<^verbatim>\<open>Includes\<close> of a project, calls its methods
  \<^verbatim>\<open>PackageName()\<close> and \<^verbatim>\<open>GeneratedFilenames()\<close>, and the template reads
  \<^verbatim>\<open>FilePrefix\<close>. The record holds the two fields and, for each of the three other
  names, the value it yields on this project; these values are arbitrary, nothing is
  assumed about how they depend on each other. The template resolves the name
  \<^verbatim>\<open>FilePrefix\<close> only when it is executed, and the read can fail there (the project
  has no such field or method, or the method returns an error): the value is the text or
  the error. The parser is a parameter wherever it is used: a function from the path to
  an error or a project.
\<close>

record Project =
  FoundAntlr4MavenPlugin :: bool
  Includes :: "string list"
  PackageName :: string
  GeneratedFilenames :: "string list"
  FilePrefix :: "error + string"

text \<open>The arguments of a \<^verbatim>\<open>log\<close> call: a string or a slice of strings.\<close>

datatype arg = Str string | Strs "string list"

text \<open>
  What a run does besides computing: it calls the parser on a path, prints a log line
  (\<^verbatim>\<open>log.Printf\<close>), prints a log line and exits (\<^verbatim>\<open>log.Fatalf\<close>), calls
  \<^verbatim>\<open>os.Create\<close> on a file name (which creates the file or truncates an existing
  one), writes bytes to the created file. The log calls are kept as format string and
  arguments.
\<close>

datatype event =
    ParsePomCall string
  | Printf string "arg list"
  | Fatalf string "arg list"
  | Create string
  | WriteOut string

record walk_state =
  projects :: "string \<rightharpoonup> Project"
  trace :: "event list"

text \<open>
  The function literal passed to \<^verbatim>\<open>filepath.Walk\<close>, with the captured map
  \<^verbatim>\<open>projects\<close> in the state. The \<^verbatim>\<open>err\<close> declared by
  \<^verbatim>\<open>p, err := internal.ParsePom(path)\<close> lives in the block of the \<^verbatim>\<open>if\<close>; the
  final \<^verbatim>\<open>return err\<close> returns the parameter.
\<close>

definition walkFn ::
  "(string \<Rightarrow> error + Project) \<Rightarrow> walk_state \<Rightarrow> string \<Rightarrow> error option
     \<Rightarrow> walk_state \<times> error option" where
  "walkFn parsePom st path err =
     (if err = None \<and> HasSuffix path ''/pom.xml'' then
        if onIgnoreList path then (st, None)
        else
          let st1 = st\<lparr>trace := trace st @ [ParsePomCall path]\<rparr> in
          case parsePom path of
            Inl e \<Rightarrow> (st1, Some e)
          | Inr p \<Rightarrow>
              if \<not> FoundAntlr4MavenPlugin p then (st1, None)
              else if length (Includes p) = 0 then
                (st1\<lparr>trace := trace st1 @
                   [Printf ''skipping %q as it contains no grammars'' [Str path]]\<rparr>, None)
              else (st1\<lparr>projects := (projects st1)(PackageName p \<mapsto> p)\<rparr>, err)
      else (st, err))"

text \<open>
  \<^verbatim>\<open>filepath.Walk\<close> belongs to the Go library. It visits the tree in lexical order and
  calls the function on every file and directory with the path and the error met on
  the way to it, if any. The list of entries is this sequence of calls for the tree at
  hand. The first error the function returns ends the walk and is the result of
  \<^verbatim>\<open>Walk\<close>. (An error equal to the sentinel \<^verbatim>\<open>filepath.SkipDir\<close> would prune the
  walk instead; neither \<^verbatim>\<open>Walk\<close> passes it in nor is the parser taken to return it.)
\<close>

fun Walk ::
  "(string \<Rightarrow> error + Project) \<Rightarrow> (string \<times> error option) list \<Rightarrow> walk_state
     \<Rightarrow> walk_state \<times> error option" where
  "Walk parsePom [] st = (st, None)"
| "Walk parsePom ((path, err) # rest) st =
     (case walkFn parsePom st path err of
        (st', Some e) \<Rightarrow> (st', Some e)
      | (st', None) \<Rightarrow> Walk parsePom rest st')"

subsection \<open>The second half of \<^verbatim>\<open>main\<close>: iterating over the map\<close>

text \<open>
  A Go map has no order of its own: a \<^verbatim>\<open>range\<close> over it yields every entry once, in
  an order the runtime chooses anew each time. The map is a HOL map, and each
  \<^verbatim>\<open>range\<close> loop of \<^verbatim>\<open>main\<close> runs over a list of entries that the runtime hands
  in; \<open>rangeOrder m kvs\<close> says that \<open>kvs\<close> is such an enumeration of \<open>m\<close>.
\<close>

definition rangeOrder :: "(string \<rightharpoonup> 'v) \<Rightarrow> (string \<times> 'v) list \<Rightarrow> bool" where
  "rangeOrder m kvs \<longleftrightarrow> distinct (map fst kvs) \<and> map_of kvs = m"

text \<open>\<^verbatim>\<open>for name := range projects { grammars = append(grammars, name) }\<close>\<close>

fun grammars_loop :: "(string \<times> Project) list \<Rightarrow> string list \<Rightarrow> string list" where
  "grammars_loop [] grammars = grammars"
| "grammars_loop ((name, project) # rest) grammars = grammars_loop rest (grammars @ [name])"

text \<open>The inner loop over \<^verbatim>\<open>project.GeneratedFilenames()\<close>.\<close>

fun generated_loop :: "string \<Rightarrow> string list \<Rightarrow> string list \<Rightarrow> string list" where
  "generated_loop name [] generated = generated"
| "generated_loop name (file # files) generated =
     generated_loop name files (generated @ [name @ ''/'' @ file])"

text \<open>The loop that fills \<^verbatim>\<open>generatedFiles\<close>; \<^verbatim>\<open>log.Fatalf\<close> ends the process, so
  the loop returns the fatal event in its place.\<close>

fun generatedFiles_loop ::
  "(string \<times> Project) list \<Rightarrow> (string \<rightharpoonup> string list) \<Rightarrow> event + (string \<rightharpoonup> string list)" where
  "generatedFiles_loop [] generatedFiles = Inr generatedFiles"
| "generatedFiles_loop ((name, project) # rest) generatedFiles =
     (let generated = generated_loop name (GeneratedFilenames project) [];
          generatedFiles' = generatedFiles(name \<mapsto> generated)
      in if length generated < 2 then
           Inl (Fatalf ''Expect atleast two generated files, only got: %q for %q''
                  [Strs generated, Str name])
         else generatedFiles_loop rest generatedFiles')"

subsection \<open>The template\<close>

record templateData =
  Grammars :: "string list"
  Projects :: "string \<rightharpoonup> Project"
  GeneratedFiles :: "string \<rightharpoonup> string list"

abbreviation NL :: string where
  "NL \<equiv> [CHR 0x0A]"

abbreviation TAB :: string where
  "TAB \<equiv> [CHR 0x09]"

text \<open>The text of \<^verbatim>\<open>MAKEFILE\<close> before \<^verbatim>\<open>{{ Join .Grammars " " }}\<close>, between this
  action and the first \<^verbatim>\<open>range\<close>, and after the last \<^verbatim>\<open>{{- end }}\<close>.\<close>

definition MAKEFILE_head :: string where
  "MAKEFILE_head = concat
    [''# Copyright 2017 Google Inc.'', NL,
     ''#'', NL,
     ''# Licensed under the Apache License, Version 2.0 (the '', [CHR 0x22], ''License'', [CHR 0x22], '');'', NL,
     ''# you may not use this file except in compliance with the License.'', NL,
     ''# You may obtain a copy of the License at'', NL,
     ''#'', NL,
     ''#     https://www.apache.org/licenses/LICENSE-2.0'', NL,
     ''#'', NL,
     ''# Unless required by applicable law or agreed to in writing, software'', NL,
     ''# distributed under the License is distributed on an '', [CHR 0x22], ''AS IS'', [CHR 0x22], '' BASIS,'', NL,
     ''# WITHOUT WARRANTIES OR CONDITIONS OF ANY KIND, either express or implied.'', NL,
     ''# See the License for the specific language governing permissions and'', NL,
     ''# limitations under the License.'', NL,
     NL,
     ''#'', NL,
     ''# Do not edit this file, it is generated by makemake.go'', NL,
     ''#'', NL,
     ''MAKEFLAGS += --no-builtin-rules'', NL,
     NL,
     ''.PHONY: all antlr clean rebuild test'', NL,
     ''.SILENT:'', NL,
     ''.DELETE_ON_ERROR:'', NL,
     ''.SUFFIXES:'', NL,
     NL,
     ''ANTLR_BIN := $(PWD)/.bin/antlr-4.7-complete.jar'', NL,
     ''ANTLR_URL := http://www.antlr.org/download/antlr-4.7-complete.jar'', NL,
     ''ANTLR_ARGS := -Dlanguage=Go -visitor'', NL,
     NL,
     ''GRAMMARS := '']"

definition MAKEFILE_rules :: string where
  "MAKEFILE_rules = concat
    [NL,
     NL,
     ''LANG_COLOR = '', [CHR 0x5C], ''033[0;36m'', NL,
     ''NO_COLOR   = '', [CHR 0x5C], ''033[m'', NL,
     NL,
     ''# This is the default target'', NL,
     ''rebuild: antlr test'', NL,
     NL,
     ''all:'', NL,
     TAB, ''go run makemake.go'', NL,
     TAB, ''make clean'', NL,
     TAB, ''make -k -j2 rebuild 2> /dev/null'', NL,
     NL,
     ''clean:'', NL,
     TAB, ''@rm -r $(GRAMMARS) 2> /dev/null || true'', NL,
     NL,
     ''antlr: $(ANTLR_BIN)'', NL,
     ''$(ANTLR_BIN):'', NL,
     TAB, ''mkdir -p .bin'', NL,
     TAB, ''curl -o $@ $(ANTLR_URL)'', NL,
     NL,
     ''test: '']"

definition MAKEFILE_tail :: string where
  "MAKEFILE_tail = concat
    [NL,
     NL,
     ''%_lexer.go %_parser.go:'', NL,
     TAB, ''lang=$$(dirname $@); '', [CHR 0x5C], NL,
     TAB, ''errors=$$lang/$$(basename $*).errors; '', [CHR 0x5C], NL,
     TAB, ''mkdir -p $$lang; '', [CHR 0x5C], NL,
     TAB, ''pushd $$(dirname $<) > /dev/null; '', [CHR 0x5C], NL,
     TAB, ''java -jar $(ANTLR_BIN) $(ANTLR_ARGS) -package $$lang $(notdir $^) -o ../../$$lang > ../../$$errors 2>&1; '', [CHR 0x5C], NL,
     TAB, ''RET=$$?; '', [CHR 0x5C], NL,
     TAB, ''popd > /dev/null; '', [CHR 0x5C], NL,
     TAB, ''if [ $$RET -ne 0 ]; then '', [CHR 0x5C], NL,
     TAB, TAB, ''printf '', [CHR 0x22], ''| %s  | $(LANG_COLOR)%-15s$(NO_COLOR) | %-75s |'', [CHR 0x5C], ''n'', [CHR 0x22], '' '', [CHR 0x22], [CHR 0xE2], [CHR 0x9D], [CHR 0x8C], [CHR 0x22], '' '', [CHR 0x22], ''$$lang'', [CHR 0x22], '' '', [CHR 0x22], ''antlr: $$(tail -n 1 $$errors)'', [CHR 0x22], ''; '', [CHR 0x5C], NL,
     TAB, TAB, ''rm $$lang/*.go > /dev/null 2>&1 || true; '', [CHR 0x5C], NL,
     TAB, TAB, ''exit $$RET; '', [CHR 0x5C], NL,
     TAB, ''fi; '', [CHR 0x5C], NL,
     TAB, ''shopt -s nullglob; '', [CHR 0x5C], NL,
     TAB, ''go build $*_*.go $*parser_*.go >> $$errors 2>&1; '', [CHR 0x5C], NL,
     TAB, ''RET=$$?; '', [CHR 0x5C], NL,
     TAB, ''if [ $$RET -ne 0 ]; then '', [CHR 0x5C], NL,
     TAB, TAB, ''printf '', [CHR 0x22], ''| %s  | $(LANG_COLOR)%-15s$(NO_COLOR) | %-75s |'', [CHR 0x5C], ''n'', [CHR 0x22], '' '', [CHR 0x22], [CHR 0xE2], [CHR 0x9D], [CHR 0x8C], [CHR 0x22], '' '', [CHR 0x22], ''$$lang'', [CHR 0x22], '' '', [CHR 0x22], ''build: $$(tail -n 1 $$errors)'', [CHR 0x22], ''; '', [CHR 0x5C], NL,
     TAB, TAB, ''exit $$RET; '', [CHR 0x5C], NL,
     TAB, ''fi;'', NL,
     NL,
     ''%_test.go:'', NL,
     TAB, ''lang=$$(dirname $@); '', [CHR 0x5C], NL,
     TAB, ''errors=$$lang/$$(basename $*).errors; '', [CHR 0x5C], NL,
     TAB, ''go run maketest.go $$lang >> $$errors 2>&1; '', [CHR 0x5C], NL,
     TAB, ''RET=$$?; '', [CHR 0x5C], NL,
     TAB, ''if [ $$RET -ne 0 ]; then '', [CHR 0x5C], NL,
     TAB, TAB, ''printf '', [CHR 0x22], ''| %s  | $(LANG_COLOR)%-15s$(NO_COLOR) | %-75s |'', [CHR 0x5C], ''n'', [CHR 0x22], '' '', [CHR 0x22], [CHR 0xE2], [CHR 0x9D], [CHR 0x8C], [CHR 0x22], '' '', [CHR 0x22], ''$$lang'', [CHR 0x22], '' '', [CHR 0x22], ''maketest: $$(tail -n 1 $$errors)'', [CHR 0x22], ''; '', [CHR 0x5C], NL,
     TAB, TAB, ''exit $$RET; '', [CHR 0x5C], NL,
     TAB, ''fi; '', [CHR 0x5C], NL,
     TAB, ''go test -timeout 10s ./$$lang >> $$errors 2>&1; '', [CHR 0x5C], NL,
     TAB, ''RET=$$?; '', [CHR 0x5C], NL,
     TAB, ''if [ $$RET -ne 0 ]; then '', [CHR 0x5C], NL,
     TAB, TAB, ''printf '', [CHR 0x22], ''| %s  | $(LANG_COLOR)%-15s$(NO_COLOR) | %-75s |'', [CHR 0x5C], ''n'', [CHR 0x22], '' '', [CHR 0x22], [CHR 0xE2], [CHR 0x9D], [CHR 0x8C], [CHR 0x22], '' '', [CHR 0x22], ''$$lang'', [CHR 0x22], '' '', [CHR 0x22], '' test: $$(tail -n 1 $$errors)'', [CHR 0x22], ''; '', [CHR 0x5C], NL,
     TAB, TAB, ''exit $$RET; '', [CHR 0x5C], NL,
     TAB, ''fi; '', [CHR 0x5C], NL,
     TAB, ''if ['', ''[ -s $$errors ]'', '']; then '', [CHR 0x5C], NL,
     TAB, TAB, ''rm $$errors; '', [CHR 0x5C], NL,
     TAB, TAB, ''printf '', [CHR 0x22], ''| %s  | $(LANG_COLOR)%-15s$(NO_COLOR) | %-75s |'', [CHR 0x5C], ''n'', [CHR 0x22], '' '', [CHR 0x22], [CHR 0xE2], [CHR 0x9C], [CHR 0x85], [CHR 0x22], '' '', [CHR 0x22], ''$$lang'', [CHR 0x22], '' '', [CHR 0x22], [CHR 0x22], ''; '', [CHR 0x5C], NL,
     TAB, ''else '', [CHR 0x5C], NL,
     TAB, TAB, ''printf '', [CHR 0x22], ''| %s  | $(LANG_COLOR)%-15s$(NO_COLOR) | %-75s |'', [CHR 0x5C], ''n'', [CHR 0x22], '' '', [CHR 0x22], [CHR 0xE2], [CHR 0x9A], [CHR 0xA0], [CHR 0xEF], [CHR 0xB8], [CHR 0x8F], [CHR 0x22], '' '', [CHR 0x22], ''$$lang'', [CHR 0x22], '' '', [CHR 0x22], ''$$(tail -n 1 $$errors)'', [CHR 0x22], ''; '', [CHR 0x5C], NL,
     TAB, ''fi;'', NL]"

text \<open>A template's \<^verbatim>\<open>range\<close> over a map with string keys visits the entries in
  sorted key order.\<close>

definition rangeSorted :: "(string \<rightharpoonup> 'v) \<Rightarrow> (string \<times> 'v) list" where
  "rangeSorted m = map (\<lambda>k. (k, the (m k))) (sorted_list_of_set (dom m))"

text \<open>The template function \<^verbatim>\<open>index\<close> on a map: the element under the key, the zero
  value (here the nil slice) when the key is absent.\<close>

definition index :: "(string \<rightharpoonup> string list) \<Rightarrow> string \<Rightarrow> string list" where
  "index m k = (case m k of None \<Rightarrow> [] | Some v \<Rightarrow> v)"

text \<open>
  Executing a template writes its output piece by piece and stops at the first action
  that fails; what the pieces before it wrote stays written. The result of a piece is
  the text it wrote and the error that stopped it, if any. \<open>then_exec\<close> runs a piece
  after another, \<open>range_exec\<close> the body of a \<^verbatim>\<open>range\<close> on each element in turn.
\<close>

definition then_exec ::
  "string \<times> error option \<Rightarrow> string \<times> error option \<Rightarrow> string \<times> error option" where
  "then_exec a b =
     (case a of
        (out, Some e) \<Rightarrow> (out, Some e)
      | (out, None) \<Rightarrow> (out @ fst b, snd b))"

fun range_exec :: "('a \<Rightarrow> string \<times> error option) \<Rightarrow> 'a list \<Rightarrow> string \<times> error option" where
  "range_exec body [] = ([], None)"
| "range_exec body (x # xs) = then_exec (body x) (range_exec body xs)"

text \<open>The body of the first \<^verbatim>\<open>range\<close>:
  \<^verbatim>\<open>{{ $name }}/{{ $project.FilePrefix }}_test.go \<close>. The name and the slash are
  written before \<^verbatim>\<open>FilePrefix\<close> is read.\<close>

definition testTarget :: "string \<times> Project \<Rightarrow> string \<times> error option" where
  "testTarget = (\<lambda>(name, project).
     case FilePrefix project of
       Inl e \<Rightarrow> (name @ ''/'', Some e)
     | Inr prefix \<Rightarrow> (name @ ''/'' @ prefix @ ''_test.go '', None))"

text \<open>The body of the second \<^verbatim>\<open>range\<close>. The marker \<^verbatim>\<open>-}}\<close> removes the line break
  after the \<^verbatim>\<open>range\<close> action and \<^verbatim>\<open>{{-\<close> the one before \<^verbatim>\<open>end\<close>; the two
  variable declarations print nothing, the line breaks after them stay. The second
  declaration reads \<^verbatim>\<open>FilePrefix\<close>, after the first line break has been written.\<close>

definition projectRules :: "templateData \<Rightarrow> string \<times> Project \<Rightarrow> string \<times> error option" where
  "projectRules data = (\<lambda>(name, project).
     let genfiles = Join (index (GeneratedFiles data) name) '' '' in
     case FilePrefix project of
       Inl e \<Rightarrow> (NL, Some e)
     | Inr prefix \<Rightarrow>
         (let testfile = Concat [name, ''/'', prefix, ''_test.go'']
          in (NL @ NL @
              name @ '': '' @ testfile @ NL @
              genfiles @ '': '' @ Join (Includes project) '' '' @ NL @
              testfile @ '': '' @ genfiles, None)))"

text \<open>The whole template: what it writes to a writer that takes everything, and the
  error of the action that stopped it, if any.\<close>

definition render :: "templateData \<Rightarrow> string \<times> error option" where
  "render data =
     then_exec (MAKEFILE_head @ Join (Grammars data) '' '' @ MAKEFILE_rules, None)
    (then_exec (range_exec testTarget (rangeSorted (Projects data)))
    (then_exec (NL @ NL, None)
    (then_exec (range_exec (projectRules data) (rangeSorted (Projects data)))
               (MAKEFILE_tail, None))))"

text \<open>
  \<^verbatim>\<open>makeTemplate.Execute(out, data)\<close> writes the text to the file as it produces it and
  stops at the first error, of the template or of the writer; what was written before
  stays written. The writer is the file, and the model is told whether it fails:
  \<open>Some (n, e)\<close> is a file that accepts \<open>n\<close> bytes and then fails with \<open>e\<close>. The
  result is what was written and the error.
\<close>

definition Execute :: "(nat \<times> error) option \<Rightarrow> templateData \<Rightarrow> string \<times> error option" where
  "Execute write_failure data =
     (case render data of
        (text, template_error) \<Rightarrow>
          (case write_failure of
             None \<Rightarrow> (text, template_error)
           | Some (n, e) \<Rightarrow>
               if n < length text then (take n text, Some e) else (text, template_error)))"

subsection \<open>\<^verbatim>\<open>main\<close>\<close>

text \<open>
  Everything \<^verbatim>\<open>main\<close> gets from outside: the parser, the entries the walk of
  \<^verbatim>\<open>grammars-v4\<close> visits, the order of each of the two \<^verbatim>\<open>range\<close> statements over
  \<^verbatim>\<open>projects\<close>, the error of \<^verbatim>\<open>os.Create("Makefile")\<close> if it fails, and the failure
  of the writes to the file if they fail.
\<close>

record world =
  ParsePom :: "string \<Rightarrow> error + Project"
  entries :: "(string \<times> error option) list"
  range1 :: "(string \<times> Project) list"
  range2 :: "(string \<times> Project) list"
  create_error :: "error option"
  write_failure :: "(nat \<times> error) option"

text \<open>What a run leaves: the events in order, and the content of \<^verbatim>\<open>Makefile\<close> as
  this run wrote it (\<open>None\<close> when the run never created the file).\<close>

record outcome =
  events :: "event list"
  makefile :: "string option"

text \<open>The state in which the walk starts: \<^verbatim>\<open>projects\<close> is the empty map.\<close>

definition init :: walk_state where
  "init = \<lparr>projects = Map.empty, trace = []\<rparr>"

definition walk_projects :: "'a world_scheme \<Rightarrow> walk_state \<times> error option" where
  "walk_projects w = Walk (ParsePom w) (entries w) init"

text \<open>\<^verbatim>\<open>main\<close> up to the construction of \<^verbatim>\<open>data\<close>: the events so far, and the
  template data unless a \<^verbatim>\<open>log.Fatalf\<close> ended the run.\<close>

definition main_data :: "'a world_scheme \<Rightarrow> event list \<times> templateData option" where
  "main_data w =
     (case walk_projects w of
        (st, Some err) \<Rightarrow> (trace st @ [Fatalf ''failed to walk: %s'' [Str err]], None)
      | (st, None) \<Rightarrow>
          (let grammars = sort (grammars_loop (range1 w) []) in
           case generatedFiles_loop (range2 w) Map.empty of
             Inl fatal \<Rightarrow> (trace st @ [fatal], None)
           | Inr generatedFiles \<Rightarrow>
               (trace st,
                Some \<lparr>Grammars = grammars, Projects = projects st,
                      GeneratedFiles = generatedFiles\<rparr>)))"

text \<open>The rest of \<^verbatim>\<open>main\<close>: \<^verbatim>\<open>os.Create\<close>, then \<^verbatim>\<open>Execute\<close> on the created
  file. (Before them \<^verbatim>\<open>template.Must\<close> parses the constant \<^verbatim>\<open>MAKEFILE\<close>, which
  is a well-formed template.)\<close>

definition main :: "'a world_scheme \<Rightarrow> outcome" where
  "main w =
     (case main_data w of
        (evs, None) \<Rightarrow> \<lparr>events = evs, makefile = None\<rparr>
      | (evs, Some data) \<Rightarrow>
          (case create_error w of
             Some err \<Rightarrow>
               \<lparr>events = evs @
                  [Create ''Makefile'', Fatalf ''failed to create Makefile: %s'' [Str err]],
                makefile = None\<rparr>
           | None \<Rightarrow>
               (case Execute (write_failure w) data of
                  (written, Some err) \<Rightarrow>
                    \<lparr>events = evs @
                       [Create ''Makefile'', WriteOut written,
                        Fatalf ''failed to generate Makefile: %s'' [Str err]],
                     makefile = Some written\<rparr>
                | (written, None) \<Rightarrow>
                    \<lparr>events = evs @ [Create ''Makefile'', WriteOut written],
                     makefile = Some written\<rparr>)))"

subsection \<open>Notions of the specification\<close>

text \<open>A descriptor is retained when its parse yields a project that configures the
  plugin and lists at least one grammar.\<close>

definition retainedAt :: "(string \<Rightarrow> error + Project) \<Rightarrow> string \<Rightarrow> Project \<Rightarrow> bool" where
  "retainedAt parsePom path p \<longleftrightarrow>
     parsePom path = Inr p \<and> FoundAntlr4MavenPlugin p \<and> Includes p \<noteq> []"

text \<open>A list of file names, each prefixed by the project name and the path
  separator.\<close>

definition prefixed :: "string \<Rightarrow> string list \<Rightarrow> string list" where
  "prefixed name files = map (\<lambda>file. name @ ''/'' @ file) files"

text \<open>The events that touch the output file.\<close>

fun touches_output :: "event \<Rightarrow> bool" where
  "touches_output (Create name) = True"
| "touches_output (WriteOut bytes) = True"
| "touches_output (ParsePomCall path) = False"
| "touches_output (Printf format args) = False"
| "touches_output (Fatalf format args) = False"

subsection \<open>A small tree of descriptors\<close>

definition abnf_project :: Project where
  "abnf_project =
     \<lparr>FoundAntlr4MavenPlugin = True, Includes = [''grammars-v4/abnf/Abnf.g4''],
      PackageName = ''abnf'', GeneratedFilenames = [''abnf_lexer.go'', ''abnf_parser.go''],
      FilePrefix = Inr ''abnf''\<rparr>"

definition json_project :: Project where
  "json_project =
     \<lparr>FoundAntlr4MavenPlugin = True, Includes = [''grammars-v4/json/JSON.g4''],
      PackageName = ''json'', GeneratedFilenames = [''json_lexer.go'', ''json_parser.go''],
      FilePrefix = Inr ''json''\<rparr>"

text \<open>A second descriptor that derives the name \<^verbatim>\<open>abnf\<close>.\<close>

definition rfc_project :: Project where
  "rfc_project =
     \<lparr>FoundAntlr4MavenPlugin = True, Includes = [''grammars-v4/rfc/Abnf.g4''],
      PackageName = ''abnf'', GeneratedFilenames = [''abnf_lexer.go'', ''abnf_parser.go''],
      FilePrefix = Inr ''abnf''\<rparr>"

text \<open>The plugin is configured, no grammar is listed.\<close>

definition empty_project :: Project where
  "empty_project =
     \<lparr>FoundAntlr4MavenPlugin = True, Includes = [],
      PackageName = ''empty'', GeneratedFilenames = [], FilePrefix = Inr ''empty''\<rparr>"

text \<open>No plugin and no grammar.\<close>

definition plain_project :: Project where
  "plain_project =
     \<lparr>FoundAntlr4MavenPlugin = False, Includes = [],
      PackageName = ''plain'', GeneratedFilenames = [], FilePrefix = Inr ''plain''\<rparr>"

text \<open>A project with a single generated file.\<close>

definition tiny_project :: Project where
  "tiny_project =
     \<lparr>FoundAntlr4MavenPlugin = True, Includes = [''grammars-v4/tiny/Tiny.g4''],
      PackageName = ''tiny'', GeneratedFilenames = [''tiny_parser.go''],
      FilePrefix = Inr ''tiny''\<rparr>"

text \<open>A project on which the template cannot read \<^verbatim>\<open>FilePrefix\<close>.\<close>

definition noprefix_project :: Project where
  "noprefix_project =
     \<lparr>FoundAntlr4MavenPlugin = True, Includes = [''grammars-v4/noprefix/A.g4''],
      PackageName = ''noprefix'', GeneratedFilenames = [''a_lexer.go'', ''a_parser.go''],
      FilePrefix = Inl ''can not evaluate field FilePrefix''\<rparr>"

text \<open>A parser for this tree; every other path holds a malformed descriptor.\<close>

definition example_ParsePom :: "string \<Rightarrow> error + Project" where
  "example_ParsePom path =
     (if path = ''grammars-v4/abnf/pom.xml'' then Inr abnf_project
      else if path = ''grammars-v4/json/pom.xml'' then Inr json_project
      else if path = ''grammars-v4/rfc/pom.xml'' then Inr rfc_project
      else if path = ''grammars-v4/empty/pom.xml'' then Inr empty_project
      else if path = ''grammars-v4/plain/pom.xml'' then Inr plain_project
      else if path = ''grammars-v4/tiny/pom.xml'' then Inr tiny_project
      else if path = ''grammars-v4/noprefix/pom.xml'' then Inr noprefix_project
      else Inl ''XML syntax error'')"

text \<open>A run on this tree: the entries visited, and the order of the first
  \<^verbatim>\<open>range\<close> loop (the second runs in the reverse order).\<close>

definition example_world ::
  "(string \<times> error option) list \<Rightarrow> (string \<times> Project) list \<Rightarrow> world" where
  "example_world es kvs =
     \<lparr>ParsePom = example_ParsePom, entries = es, range1 = kvs, range2 = rev kvs,
      create_error = None, write_failure = None\<rparr>"

definition abnf_json_entries :: "(string \<times> error option) list" where
  "abnf_json_entries =
     [(''grammars-v4'', None),
      (''grammars-v4/abnf/Abnf.g4'', None),
      (''grammars-v4/abnf/pom.xml'', None),
      (''grammars-v4/json/pom.xml'', None)]"

definition abnf_json_world :: world where
  "abnf_json_world =
     example_world abnf_json_entries [(''json'', json_project), (''abnf'', abnf_project)]"

text \<open>Two descriptors that derive the same name.\<close>

definition abnf_rfc_entries :: "(string \<times> error option) list" where
  "abnf_rfc_entries =
     [(''grammars-v4/abnf/pom.xml'', None),
      (''grammars-v4/rfc/pom.xml'', None)]"

text \<open>A malformed descriptor between two good ones.\<close>

definition broken_world :: world where
  "broken_world =
     example_world
       [(''grammars-v4/abnf/pom.xml'', None),
        (''grammars-v4/broken/pom.xml'', None),
        (''grammars-v4/json/pom.xml'', None)] []"

text \<open>A descriptor on the ignore list; the parser of the example rejects it.\<close>

definition objc_world :: world where
  "objc_world =
     example_world
       [(''grammars-v4/abnf/pom.xml'', None),
        (''grammars-v4/objc/pom.xml'', None)] [(''abnf'', abnf_project)]"

text \<open>A descriptor with the plugin and without grammars.\<close>

definition empty_world :: world where
  "empty_world =
     example_world
       [(''grammars-v4/abnf/pom.xml'', None),
        (''grammars-v4/empty/pom.xml'', None)] [(''abnf'', abnf_project)]"

text \<open>A single descriptor, without the plugin and without grammars.\<close>

definition plain_world :: world where
  "plain_world = example_world [(''grammars-v4/plain/pom.xml'', None)] []"

text \<open>A retained project with a single generated file.\<close>

definition tiny_world :: world where
  "tiny_world =
     example_world
       [(''grammars-v4/abnf/pom.xml'', None),
        (''grammars-v4/tiny/pom.xml'', None)]
       [(''abnf'', abnf_project), (''tiny'', tiny_project)]"

text \<open>A run on the project whose \<^verbatim>\<open>FilePrefix\<close> cannot be read; the file takes
  every write.\<close>

definition noprefix_world :: world where
  "noprefix_world =
     example_world [(''grammars-v4/noprefix/pom.xml'', None)] [(''noprefix'', noprefix_project)]"

section \<open>Properties\<close>

subsection \<open>The walk\<close>

lemma walkFn_trace_mono:
  "walkFn P st path err = (st', r) \<Longrightarrow> set (trace st) \<subseteq> set (trace st')"
  by (auto simp: walkFn_def Let_def split: if_splits sum.splits)

lemma Walk_trace_mono:
  "Walk P es st = (st', r) \<Longrightarrow> set (trace st) \<subseteq> set (trace st')"
proof (induction es arbitrary: st)
  case Nil
  then show ?case by simp
next
  case (Cons a es)
  obtain path err where a: "a = (path, err)" by (cases a)
  obtain s1 r1 where w: "walkFn P st path err = (s1, r1)" by fastforce
  show ?case
  proof (cases r1)
    case (Some e)
    then show ?thesis using Cons.prems a w walkFn_trace_mono [OF w] by simp
  next
    case None
    then have "Walk P es s1 = (st', r)" using Cons.prems a w by simp
    then show ?thesis using Cons.IH walkFn_trace_mono [OF w] by blast
  qed
qed

lemma walkFn_projects:
  "walkFn P st path err = (st', r) \<Longrightarrow>
     projects st' = projects st \<or>
     (\<exists>q. retainedAt P path q \<and> r = None \<and> ParsePomCall path \<in> set (trace st') \<and>
          projects st' = (projects st)(PackageName q \<mapsto> q))"
  by (auto simp: walkFn_def Let_def retainedAt_def split: if_splits sum.splits)

lemma walkFn_new_call:
  "walkFn P st path err = (st', r) \<Longrightarrow> ParsePomCall pa \<in> set (trace st') \<Longrightarrow>
     ParsePomCall pa \<notin> set (trace st) \<Longrightarrow> retainedAt P pa p \<Longrightarrow>
     pa = path \<and> r = None \<and> projects st' = (projects st)(PackageName p \<mapsto> p)"
  by (auto simp: walkFn_def Let_def retainedAt_def split: if_splits sum.splits)


lemma Walk_keeps_binding:
  "Walk P es st = (st', r) \<Longrightarrow> projects st k = Some p \<Longrightarrow>
   (\<forall>path' q. ParsePomCall path' \<in> set (trace st') \<and> retainedAt P path' q \<and>
       PackageName q = k \<longrightarrow> q = p) \<Longrightarrow>
   projects st' k = Some p"
proof (induction es arbitrary: st)
  case Nil
  then show ?case by simp
next
  case (Cons a es)
  obtain path err where a: "a = (path, err)" by (cases a)
  obtain s1 r1 where w: "walkFn P st path err = (s1, r1)" by fastforce
  note wp = walkFn_projects [OF w]
  show ?case
  proof (cases r1)
    case (Some e)
    then have "st' = s1" using Cons.prems(1) a w by simp
    moreover have "projects s1 = projects st"
      using wp Some by auto
    ultimately show ?thesis using Cons.prems(2) by simp
  next
    case None
    then have rest: "Walk P es s1 = (st', r)" using Cons.prems(1) a w by simp
    have sub: "set (trace s1) \<subseteq> set (trace st')" by (rule Walk_trace_mono [OF rest])
    have "projects s1 k = Some p"
    proof (cases "projects s1 = projects st")
      case True
      then show ?thesis using Cons.prems(2) by simp
    next
      case False
      then obtain q where q: "retainedAt P path q" "ParsePomCall path \<in> set (trace s1)"
          "projects s1 = (projects st)(PackageName q \<mapsto> q)"
        using wp by blast
      show ?thesis
      proof (cases "PackageName q = k")
        case True
        have "ParsePomCall path \<in> set (trace st')" using q(2) sub by blast
        then have "q = p" using Cons.prems(3) q(1) True by blast
        then show ?thesis using q(3) True by simp
      next
        case False
        then show ?thesis using q(3) Cons.prems(2) by simp
      qed
    qed
    then show ?thesis by (rule Cons.IH [OF rest _ Cons.prems(3)])
  qed
qed


lemma Walk_retains:
  "Walk P es st = (st', r) \<Longrightarrow> ParsePomCall path \<in> set (trace st') \<Longrightarrow>
   ParsePomCall path \<notin> set (trace st) \<Longrightarrow> retainedAt P path p \<Longrightarrow>
   (\<forall>path' q. ParsePomCall path' \<in> set (trace st') \<and> path' \<noteq> path \<and> retainedAt P path' q
       \<longrightarrow> PackageName q \<noteq> PackageName p) \<Longrightarrow>
   projects st' (PackageName p) = Some p"
proof (induction es arbitrary: st)
  case Nil
  then show ?case by simp
next
  case (Cons a es)
  obtain pa err where a: "a = (pa, err)" by (cases a)
  obtain s1 r1 where w: "walkFn P st pa err = (s1, r1)" by fastforce
  have same: "q = p" if "retainedAt P path q" for q
    using that Cons.prems(4) by (simp add: retainedAt_def)
  show ?case
  proof (cases "ParsePomCall path \<in> set (trace s1)")
    case True
    have n: "path = pa \<and> r1 = None \<and> projects s1 = (projects st)(PackageName p \<mapsto> p)"
      by (rule walkFn_new_call [OF w True Cons.prems(3,4)])
    then have rest: "Walk P es s1 = (st', r)" using Cons.prems(1) a w by simp
    have b: "projects s1 (PackageName p) = Some p" using n by simp
    have "\<forall>path' q. ParsePomCall path' \<in> set (trace st') \<and> retainedAt P path' q \<and>
       PackageName q = PackageName p \<longrightarrow> q = p"
    proof (intro allI impI)
      fix path' q
      assume h: "ParsePomCall path' \<in> set (trace st') \<and> retainedAt P path' q \<and>
        PackageName q = PackageName p"
      show "q = p"
      proof (cases "path' = path")
        case True
        then show ?thesis using h same by simp
      next
        case False
        then show ?thesis using h Cons.prems(5) by blast
      qed
    qed
    then show ?thesis by (rule Walk_keeps_binding [OF rest b])
  next
    case False
    have "r1 = None"
    proof (rule ccontr)
      assume "r1 \<noteq> None"
      then have "st' = s1" using Cons.prems(1) a w by auto
      then show False using False Cons.prems(2) by simp
    qed
    then have rest: "Walk P es s1 = (st', r)" using Cons.prems(1) a w by simp
    show ?thesis by (rule Cons.IH [OF rest Cons.prems(2) False Cons.prems(4,5)])
  qed
qed


lemma walkFn_keyed:
  "walkFn P st path err = (st', r) \<Longrightarrow> (\<forall>k q. projects st k = Some q \<longrightarrow> PackageName q = k) \<Longrightarrow>
     (\<forall>k q. projects st' k = Some q \<longrightarrow> PackageName q = k)"
  using walkFn_projects [of P st path err st' r] by (auto split: if_splits)

lemma Walk_keyed:
  "Walk P es st = (st', r) \<Longrightarrow> (\<forall>k q. projects st k = Some q \<longrightarrow> PackageName q = k) \<Longrightarrow>
     (\<forall>k q. projects st' k = Some q \<longrightarrow> PackageName q = k)"
proof (induction es arbitrary: st)
  case Nil
  then show ?case by simp
next
  case (Cons a es)
  obtain path err where a: "a = (path, err)" by (cases a)
  obtain s1 r1 where w: "walkFn P st path err = (s1, r1)" by fastforce
  have k1: "\<forall>k q. projects s1 k = Some q \<longrightarrow> PackageName q = k"
    by (rule walkFn_keyed [OF w Cons.prems(2)])
  show ?case
  proof (cases r1)
    case (Some e)
    then have "st' = s1" using Cons.prems(1) a w by simp
    then show ?thesis using k1 by simp
  next
    case None
    then have rest: "Walk P es s1 = (st', r)" using Cons.prems(1) a w by simp
    show ?thesis by (rule Cons.IH [OF rest k1])
  qed
qed

lemma walk_projects_retains:
  assumes "ParsePomCall path \<in> set (trace (fst (walk_projects w)))"
    and "ParsePom w path = Inr p"
    and "FoundAntlr4MavenPlugin p"
    and "Includes p \<noteq> []"
    and "\<forall>path' q. ParsePomCall path' \<in> set (trace (fst (walk_projects w))) \<and> path' \<noteq> path \<and>
           ParsePom w path' = Inr q \<and> FoundAntlr4MavenPlugin q \<and> Includes q \<noteq> []
           \<longrightarrow> PackageName q \<noteq> PackageName p"
  shows "projects (fst (walk_projects w)) (PackageName p) = Some p \<and>
         (\<forall>k. projects (fst (walk_projects w)) k = Some p \<longrightarrow> k = PackageName p)"
proof -
  obtain st' r where W: "Walk (ParsePom w) (entries w) init = (st', r)"
    by fastforce
  have st': "fst (walk_projects w) = st'" using W by (simp add: walk_projects_def)
  have ret: "retainedAt (ParsePom w) path p" using assms(2-4) by (simp add: retainedAt_def)
  have a1: "ParsePomCall path \<in> set (trace st')" using assms(1) st' by simp
  have a3: "\<forall>path' q. ParsePomCall path' \<in> set (trace st') \<and> path' \<noteq> path \<and>
       retainedAt (ParsePom w) path' q \<longrightarrow> PackageName q \<noteq> PackageName p"
    using assms(5) unfolding st' retainedAt_def by blast
  have 1: "projects st' (PackageName p) = Some p"
    by (rule Walk_retains [OF W a1 _ ret a3]) (simp add: init_def)
  have "\<forall>k q. projects init k = Some q \<longrightarrow> PackageName q = k"
    by (simp add: init_def)
  then have 2: "\<forall>k q. projects st' k = Some q \<longrightarrow> PackageName q = k"
    by (rule Walk_keyed [OF W])
  show ?thesis unfolding st' using 1 2 by blast
qed


lemmas example_projects =
  abnf_project_def json_project_def rfc_project_def empty_project_def plain_project_def
  tiny_project_def noprefix_project_def

lemmas example_eval =
  walk_projects_def example_world_def init_def walkFn_def HasSuffix_def onIgnoreList_def
  IGNORE_def example_ParsePom_def example_projects

lemma abnf_json_walk:
  "walk_projects abnf_json_world =
     (\<lparr>projects = [''abnf'' \<mapsto> abnf_project, ''json'' \<mapsto> json_project],
       trace = [ParsePomCall ''grammars-v4/abnf/pom.xml'',
                ParsePomCall ''grammars-v4/json/pom.xml'']\<rparr>, None)"
  by (simp add: abnf_json_world_def abnf_json_entries_def example_eval)

lemma abnf_json_ParsePom: "ParsePom abnf_json_world = example_ParsePom"
  by (simp add: abnf_json_world_def example_world_def)

subsection \<open>The walk, entry by entry\<close>

lemma Walk_append:
  "Walk P (es1 @ es2) st =
     (case Walk P es1 st of (s, Some e) \<Rightarrow> (s, Some e) | (s, None) \<Rightarrow> Walk P es2 s)"
proof (induction es1 arbitrary: st)
  case Nil
  show ?case by simp
next
  case (Cons a es1)
  obtain path err where a: "a = (path, err)" by (cases a)
  obtain s1 r1 where w: "walkFn P st path err = (s1, r1)" by fastforce
  show ?case
  proof (cases r1)
    case None
    then show ?thesis using a w Cons.IH [of s1] by simp
  next
    case (Some e)
    then show ?thesis using a w by simp
  qed
qed

lemma Walk_reaches:
  "Walk P es1 st = (st1, None) \<Longrightarrow>
     Walk P (es1 @ (path, err) # es2) st =
       (case walkFn P st1 path err of (s, Some e) \<Rightarrow> (s, Some e) | (s, None) \<Rightarrow> Walk P es2 s)"
  by (simp add: Walk_append)

lemma onIgnoreList_loop_iff:
  "onIgnoreList_loop igs path \<longleftrightarrow>
     (\<exists>ig \<in> set igs. HasSuffix path (''/'' @ ig @ ''/pom.xml''))"
  by (induction igs) auto

lemma onIgnoreList_iff:
  "onIgnoreList path \<longleftrightarrow> (\<exists>ig \<in> set IGNORE. HasSuffix path (''/'' @ ig @ ''/pom.xml''))"
  by (simp add: onIgnoreList_def onIgnoreList_loop_iff)

lemma walkFn_ignored: "onIgnoreList path \<Longrightarrow> walkFn P st path None = (st, None)"
  by (simp add: walkFn_def)

lemma walkFn_calls:
  "walkFn P st path err = (st', r) \<Longrightarrow> ParsePomCall pa \<in> set (trace st') \<Longrightarrow>
     ParsePomCall pa \<in> set (trace st) \<or>
     (pa = path \<and> err = None \<and> HasSuffix path ''/pom.xml'' \<and> \<not> onIgnoreList path)"
  by (auto simp: walkFn_def Let_def split: if_splits sum.splits)

lemma Walk_calls:
  "Walk P es st = (st', r) \<Longrightarrow> ParsePomCall pa \<in> set (trace st') \<Longrightarrow>
     ParsePomCall pa \<in> set (trace st) \<or>
     (HasSuffix pa ''/pom.xml'' \<and> \<not> onIgnoreList pa \<and> (pa, None) \<in> set es)"
proof (induction es arbitrary: st)
  case Nil
  then show ?case by simp
next
  case (Cons a es)
  obtain path err where a: "a = (path, err)" by (cases a)
  obtain s1 r1 where w: "walkFn P st path err = (s1, r1)" by fastforce
  note c = walkFn_calls [OF w, of pa]
  show ?case
  proof (cases r1)
    case (Some e)
    then have "st' = s1" using Cons.prems(1) a w by simp
    then show ?thesis using c Cons.prems(2) a by auto
  next
    case None
    then have rest: "Walk P es s1 = (st', r)" using Cons.prems(1) a w by simp
    from Cons.IH [OF rest Cons.prems(2)] show ?thesis
    proof
      assume "ParsePomCall pa \<in> set (trace s1)"
      then show ?thesis using c a by auto
    next
      assume "HasSuffix pa ''/pom.xml'' \<and> \<not> onIgnoreList pa \<and> (pa, None) \<in> set es"
      then show ?thesis by simp
    qed
  qed
qed

lemma generatedFiles_loop_fatal:
  "generatedFiles_loop kvs gf = Inl ev \<Longrightarrow> \<exists>f a. ev = Fatalf f a"
  by (induction kvs gf rule: generatedFiles_loop.induct) (auto simp: Let_def split: if_splits)

lemma main_data_events:
  "\<exists>tail. fst (main_data w) = trace (fst (walk_projects w)) @ tail \<and>
          (\<forall>e \<in> set tail. \<exists>f a. e = Fatalf f a)"
proof -
  obtain st r where W: "walk_projects w = (st, r)" by fastforce
  show ?thesis
  proof (cases r)
    case (Some e)
    then show ?thesis using W by (simp add: main_data_def)
  next
    case None
    show ?thesis
    proof (cases "generatedFiles_loop (range2 w) Map.empty")
      case (Inl ev)
      then show ?thesis using W None generatedFiles_loop_fatal [OF Inl]
        by (auto simp: main_data_def)
    next
      case (Inr gf)
      then show ?thesis using W None by (simp add: main_data_def)
    qed
  qed
qed

lemma main_events_data:
  "\<exists>tail. events (main w) = fst (main_data w) @ tail \<and> (\<forall>e \<in> set tail. \<forall>p. e \<noteq> ParsePomCall p)"
proof -
  obtain evs d where D: "main_data w = (evs, d)" by fastforce
  show ?thesis
  proof (cases d)
    case None
    then show ?thesis using D by (simp add: main_def)
  next
    case (Some data)
    obtain written er where E: "Execute (write_failure w) data = (written, er)" by fastforce
    show ?thesis using D Some E
      by (cases "create_error w"; cases er) (simp_all add: main_def)
  qed
qed

lemma main_events:
  "\<exists>tail. events (main w) = trace (fst (walk_projects w)) @ tail \<and>
          (\<forall>e \<in> set tail. \<forall>p. e \<noteq> ParsePomCall p)"
proof -
  obtain t1 where 1: "fst (main_data w) = trace (fst (walk_projects w)) @ t1"
      "\<forall>e \<in> set t1. \<exists>f a. e = Fatalf f a"
    using main_data_events [of w] by blast
  obtain t2 where 2: "events (main w) = fst (main_data w) @ t2"
      "\<forall>e \<in> set t2. \<forall>p. e \<noteq> ParsePomCall p"
    using main_events_data [of w] by blast
  have "events (main w) = trace (fst (walk_projects w)) @ (t1 @ t2)" using 1(1) 2(1) by simp
  moreover have "\<forall>e \<in> set (t1 @ t2). \<forall>p. e \<noteq> ParsePomCall p" using 1(2) 2(2) by auto
  ultimately show ?thesis by blast
qed

lemma main_calls:
  "ParsePomCall pa \<in> set (events (main w)) \<longleftrightarrow>
     ParsePomCall pa \<in> set (trace (fst (walk_projects w)))"
  using main_events [of w] by auto

lemma walk_projects_calls:
  "ParsePomCall pa \<in> set (trace (fst (walk_projects w))) \<Longrightarrow>
     HasSuffix pa ''/pom.xml'' \<and> \<not> onIgnoreList pa \<and> (pa, None) \<in> set (entries w)"
proof -
  assume h: "ParsePomCall pa \<in> set (trace (fst (walk_projects w)))"
  obtain st r where W: "Walk (ParsePom w) (entries w) init = (st, r)" by fastforce
  have "ParsePomCall pa \<in> set (trace st)" using h W by (simp add: walk_projects_def)
  from Walk_calls [OF W this] show ?thesis by (simp add: init_def)
qed

lemma walkFn_trace_shift:
  "walkFn P st path err =
     (case walkFn P (st\<lparr>trace := []\<rparr>) path err of
        (s, r) \<Rightarrow> (s\<lparr>trace := trace st @ trace s\<rparr>, r))"
  by (simp add: walkFn_def Let_def split: sum.splits)

lemma Walk_trace_shift:
  "Walk P es st =
     (case Walk P es (st\<lparr>trace := []\<rparr>) of
        (s, r) \<Rightarrow> (s\<lparr>trace := trace st @ trace s\<rparr>, r))"
proof (induction es arbitrary: st)
  case Nil
  show ?case by simp
next
  case (Cons a es)
  obtain path err where a: "a = (path, err)" by (cases a)
  obtain s1 r1 where w0: "walkFn P (st\<lparr>trace := []\<rparr>) path err = (s1, r1)" by fastforce
  have w: "walkFn P st path err = (s1\<lparr>trace := trace st @ trace s1\<rparr>, r1)"
    using walkFn_trace_shift [of P st path err] w0 by simp
  show ?case
  proof (cases r1)
    case (Some e)
    then show ?thesis using a w0 w by simp
  next
    case None
    obtain s2 r2 where w2: "Walk P es (s1\<lparr>trace := []\<rparr>) = (s2, r2)" by fastforce
    have "Walk P es s1 = (s2\<lparr>trace := trace s1 @ trace s2\<rparr>, r2)"
      using Cons.IH [of s1] w2 by simp
    moreover have "Walk P es (s1\<lparr>trace := trace st @ trace s1\<rparr>) =
        (s2\<lparr>trace := (trace st @ trace s1) @ trace s2\<rparr>, r2)"
      using Cons.IH [of "s1\<lparr>trace := trace st @ trace s1\<rparr>"] w2 by simp
    ultimately show ?thesis using a w0 w None by simp
  qed
qed

lemma Walk_trace_irrelevant:
  "projects (fst (Walk P es (st\<lparr>trace := t\<rparr>))) = projects (fst (Walk P es st)) \<and>
   snd (Walk P es (st\<lparr>trace := t\<rparr>)) = snd (Walk P es st)"
proof -
  obtain s r where w: "Walk P es (st\<lparr>trace := []\<rparr>) = (s, r)" by fastforce
  have "Walk P es st = (s\<lparr>trace := trace st @ trace s\<rparr>, r)"
    using Walk_trace_shift [of P es st] w by simp
  moreover have "Walk P es (st\<lparr>trace := t\<rparr>) = (s\<lparr>trace := t @ trace s\<rparr>, r)"
    using Walk_trace_shift [of P es "st\<lparr>trace := t\<rparr>"] w by simp
  ultimately show ?thesis by simp
qed

lemma main_data_cong:
  assumes "walk_projects w' = walk_projects w"
    and "range1 w' = range1 w" and "range2 w' = range2 w"
  shows "main_data w' = main_data w"
  unfolding main_data_def assms by (rule refl)

lemma main_cong:
  assumes "main_data w' = main_data w"
    and "create_error w' = create_error w" and "write_failure w' = write_failure w"
  shows "main w' = main w"
  unfolding main_def assms by (rule refl)

lemma main_data_snd_cong:
  assumes "projects (fst (walk_projects w')) = projects (fst (walk_projects w))"
    and "snd (walk_projects w') = snd (walk_projects w)"
    and "range1 w' = range1 w" and "range2 w' = range2 w"
  shows "snd (main_data w') = snd (main_data w)"
proof -
  obtain st r where W: "walk_projects w = (st, r)" by fastforce
  obtain st' where W': "walk_projects w' = (st', r)" using assms(2) W by (cases "walk_projects w'") simp
  have p: "projects st' = projects st" using assms(1) W W' by simp
  show ?thesis using W W' p assms(3,4)
    by (cases r; cases "generatedFiles_loop (range2 w) Map.empty") (simp_all add: main_data_def)
qed

lemma makefile_main:
  "makefile (main w) =
     (case snd (main_data w) of
        None \<Rightarrow> None
      | Some data \<Rightarrow>
          (case create_error w of
             Some err \<Rightarrow> None
           | None \<Rightarrow> Some (fst (Execute (write_failure w) data))))"
proof -
  obtain evs d where D: "main_data w = (evs, d)" by fastforce
  show ?thesis
  proof (cases d)
    case None
    then show ?thesis using D by (simp add: main_def)
  next
    case (Some data)
    obtain written er where E: "Execute (write_failure w) data = (written, er)" by fastforce
    show ?thesis using D Some E
      by (cases "create_error w"; cases er) (simp_all add: main_def)
  qed
qed

lemma walkFn_ignored_any: "onIgnoreList path \<Longrightarrow> walkFn P st path err = (st, err)"
  by (auto simp: walkFn_def)

lemma walkFn_parser_update:
  "onIgnoreList path \<Longrightarrow> walkFn (P(path := res)) st pa err = walkFn P st pa err"
  by (cases "pa = path") (simp_all add: walkFn_ignored_any, simp add: walkFn_def)

lemma Walk_parser_update:
  "onIgnoreList path \<Longrightarrow> Walk (P(path := res)) es st = Walk P es st"
proof (induction es arbitrary: st)
  case Nil
  show ?case by simp
next
  case (Cons a es)
  obtain pa err where a: "a = (pa, err)" by (cases a)
  have "walkFn (P(path := res)) st pa err = walkFn P st pa err"
    by (rule walkFn_parser_update [OF Cons.prems])
  then show ?case unfolding a Walk.simps Cons.IH [OF Cons.prems] by (rule arg_cong)
qed

lemma Walk_skip_ignored:
  "onIgnoreList path \<Longrightarrow> Walk P (es1 @ (path, None) # es2) st = Walk P (es1 @ es2) st"
  by (simp add: Walk_append walkFn_ignored_any split: prod.splits option.splits)

lemma abnf_walk:
  "Walk example_ParsePom [(''grammars-v4/abnf/pom.xml'', None)] init =
     (\<lparr>projects = [''abnf'' \<mapsto> abnf_project],
       trace = [ParsePomCall ''grammars-v4/abnf/pom.xml'']\<rparr>, None)"
  by (simp add: example_eval)

subsection \<open>Retained descriptors\<close>

lemma main_data_Projects:
  "main_data w = (evs, Some data) \<Longrightarrow> Projects data = projects (fst (walk_projects w))"
proof -
  assume m: "main_data w = (evs, Some data)"
  obtain st r where W: "walk_projects w = (st, r)" by fastforce
  have r: "r = None" using m W by (cases r) (simp_all add: main_data_def)
  show ?thesis using m W r
    by (cases "generatedFiles_loop (range2 w) Map.empty") (auto simp: main_data_def)
qed

text \<open>
  Claim C1. Take an entry of the tree that the walk reaches without error, whose path
  ends in \<^verbatim>\<open>/pom.xml\<close> and is not on the ignore list, and on which the parser
  yields a project that configures the plugin and lists a grammar. Suppose no other
  entry of the tree is a retained descriptor that derives the same name. Then, when
  the walk ends, the map holds this project under its package name, and under no other
  key; and so does the map handed to the template when the run gets that far.
\<close>

theorem C1_project_appears_exactly_once:
  assumes "entries w = es1 @ (path, None) # es2"
    and "Walk (ParsePom w) es1 init = (st1, None)"
    and "HasSuffix path ''/pom.xml''"
    and "\<not> onIgnoreList path"
    and "ParsePom w path = Inr p"
    and "FoundAntlr4MavenPlugin p"
    and "Includes p \<noteq> []"
    and "\<forall>path' q. (path', None) \<in> set (es1 @ es2) \<and> path' \<noteq> path \<and>
           HasSuffix path' ''/pom.xml'' \<and> \<not> onIgnoreList path' \<and>
           retainedAt (ParsePom w) path' q
           \<longrightarrow> PackageName q \<noteq> PackageName p"
  shows "projects (fst (walk_projects w)) (PackageName p) = Some p \<and>
         (\<forall>k. projects (fst (walk_projects w)) k = Some p \<longrightarrow> k = PackageName p) \<and>
         (main_data w = (evs, Some data) \<longrightarrow>
            Projects data (PackageName p) = Some p \<and>
            (\<forall>k. Projects data k = Some p \<longrightarrow> k = PackageName p))"
proof -
  let ?st = "st1\<lparr>trace := trace st1 @ [ParsePomCall path],
                 projects := (projects st1)(PackageName p \<mapsto> p)\<rparr>"
  have step: "walkFn (ParsePom w) st1 path None = (?st, None)"
    using assms(3-7) by (simp add: walkFn_def)
  have W: "walk_projects w = Walk (ParsePom w) es2 ?st"
    using Walk_reaches [OF assms(2), of path None es2] assms(1) step
    by (simp add: walk_projects_def)
  obtain st' r where R: "Walk (ParsePom w) es2 ?st = (st', r)" by fastforce
  have "ParsePomCall path \<in> set (trace ?st)" by simp
  then have called: "ParsePomCall path \<in> set (trace (fst (walk_projects w)))"
    using Walk_trace_mono [OF R] W R by auto
  have others: "\<forall>path' q. ParsePomCall path' \<in> set (trace (fst (walk_projects w))) \<and>
           path' \<noteq> path \<and>
           ParsePom w path' = Inr q \<and> FoundAntlr4MavenPlugin q \<and> Includes q \<noteq> []
           \<longrightarrow> PackageName q \<noteq> PackageName p"
  proof (intro allI impI)
    fix path' q
    assume h: "ParsePomCall path' \<in> set (trace (fst (walk_projects w))) \<and>
           path' \<noteq> path \<and>
           ParsePom w path' = Inr q \<and> FoundAntlr4MavenPlugin q \<and> Includes q \<noteq> []"
    then have c: "HasSuffix path' ''/pom.xml'' \<and> \<not> onIgnoreList path' \<and>
        (path', None) \<in> set (entries w)"
      using walk_projects_calls [of path' w] by blast
    then have "(path', None) \<in> set (es1 @ es2)" using h assms(1) by auto
    moreover have "retainedAt (ParsePom w) path' q" using h by (simp add: retainedAt_def)
    ultimately show "PackageName q \<noteq> PackageName p" using assms(8) c h by blast
  qed
  note m = walk_projects_retains [OF called assms(5-7) others]
  have "Projects data (PackageName p) = Some p \<and>
            (\<forall>k. Projects data k = Some p \<longrightarrow> k = PackageName p)"
    if d: "main_data w = (evs, Some data)"
    using m main_data_Projects [OF d] by simp
  then show ?thesis using m by blast
qed

theorem C1_witness:
  "entries abnf_json_world =
     [(''grammars-v4'', None), (''grammars-v4/abnf/Abnf.g4'', None)] @
     (''grammars-v4/abnf/pom.xml'', None) # [(''grammars-v4/json/pom.xml'', None)] \<and>
   ParsePom abnf_json_world ''grammars-v4/abnf/pom.xml'' = Inr abnf_project \<and>
   projects (fst (walk_projects abnf_json_world)) (PackageName abnf_project) = Some abnf_project \<and>
   {k. projects (fst (walk_projects abnf_json_world)) k = Some abnf_project} =
     {PackageName abnf_project}"
proof -
  have 1: "entries abnf_json_world =
     [(''grammars-v4'', None), (''grammars-v4/abnf/Abnf.g4'', None)] @
     (''grammars-v4/abnf/pom.xml'', None) # [(''grammars-v4/json/pom.xml'', None)]"
    by (simp add: abnf_json_world_def example_world_def abnf_json_entries_def)
  have 2: "Walk (ParsePom abnf_json_world)
      [(''grammars-v4'', None), (''grammars-v4/abnf/Abnf.g4'', None)] init = (init, None)"
    by (simp add: walkFn_def HasSuffix_def)
  have 3: "HasSuffix ''grammars-v4/abnf/pom.xml'' ''/pom.xml''"
    by (simp add: HasSuffix_def)
  have 4: "\<not> onIgnoreList ''grammars-v4/abnf/pom.xml''"
    by (simp add: onIgnoreList_def IGNORE_def HasSuffix_def)
  have 5: "ParsePom abnf_json_world ''grammars-v4/abnf/pom.xml'' = Inr abnf_project"
    by (simp add: abnf_json_ParsePom example_ParsePom_def)
  have 6: "FoundAntlr4MavenPlugin abnf_project" and 7: "Includes abnf_project \<noteq> []"
    by (simp_all add: abnf_project_def)
  have 8: "\<forall>path' q. (path', None) \<in> set
             ([(''grammars-v4'', None), (''grammars-v4/abnf/Abnf.g4'', None)] @
              [(''grammars-v4/json/pom.xml'', None)]) \<and>
           path' \<noteq> ''grammars-v4/abnf/pom.xml'' \<and>
           HasSuffix path' ''/pom.xml'' \<and> \<not> onIgnoreList path' \<and>
           retainedAt (ParsePom abnf_json_world) path' q
           \<longrightarrow> PackageName q \<noteq> PackageName abnf_project"
  proof (intro allI impI)
    fix path' q
    assume h: "(path', None) \<in> set
             ([(''grammars-v4'', None), (''grammars-v4/abnf/Abnf.g4'', None)] @
              [(''grammars-v4/json/pom.xml'', None)]) \<and>
           path' \<noteq> ''grammars-v4/abnf/pom.xml'' \<and>
           HasSuffix path' ''/pom.xml'' \<and> \<not> onIgnoreList path' \<and>
           retainedAt (ParsePom abnf_json_world) path' q"
    then have "path' = ''grammars-v4'' \<or> path' = ''grammars-v4/abnf/Abnf.g4'' \<or>
        path' = ''grammars-v4/json/pom.xml''"
      by simp
    moreover have "\<not> HasSuffix ''grammars-v4'' ''/pom.xml''"
        "\<not> HasSuffix ''grammars-v4/abnf/Abnf.g4'' ''/pom.xml''"
      by (simp_all add: HasSuffix_def)
    ultimately have p: "path' = ''grammars-v4/json/pom.xml''" using h by blast
    have "ParsePom abnf_json_world ''grammars-v4/json/pom.xml'' = Inr json_project"
      by (simp add: abnf_json_ParsePom example_ParsePom_def)
    then have "q = json_project" using h p by (simp add: retainedAt_def)
    then show "PackageName q \<noteq> PackageName abnf_project"
      by (simp add: json_project_def abnf_project_def)
  qed
  note t = C1_project_appears_exactly_once [OF 1 2 3 4 5 6 7 8]
  have a: "projects (fst (walk_projects abnf_json_world)) (PackageName abnf_project) =
      Some abnf_project"
    by (rule t [THEN conjunct1])
  have b: "\<forall>k. projects (fst (walk_projects abnf_json_world)) k = Some abnf_project
      \<longrightarrow> k = PackageName abnf_project"
    by (rule t [THEN conjunct2, THEN conjunct1])
  have "{k. projects (fst (walk_projects abnf_json_world)) k = Some abnf_project} =
     {PackageName abnf_project}"
    using a b by blast
  then show ?thesis using a 1 5 by simp
qed

subsection \<open>Descriptors with the same name\<close>

text \<open>
  Claim C4. Suppose the walk has reached a descriptor without an error, the map already
  holds a project under the name that this descriptor derives, and the descriptor is
  retained. Then the call of the function on it replaces the earlier project by the
  later one, adds the parse call and nothing else to the events (no log line), returns
  no error, and the walk goes on with the remaining entries.
\<close>
theorem C4_later_descriptor_replaces_earlier:
  assumes "Walk P es1 st0 = (st1, None)"
    and "projects st1 (PackageName q) = Some p"
    and "HasSuffix path ''/pom.xml''"
    and "\<not> onIgnoreList path"
    and "retainedAt P path q"
  shows "walkFn P st1 path None =
           (st1\<lparr>trace := trace st1 @ [ParsePomCall path],
                projects := (projects st1)(PackageName q \<mapsto> q)\<rparr>, None) \<and>
         Walk P (es1 @ (path, None) # es2) st0 =
           Walk P es2 (st1\<lparr>trace := trace st1 @ [ParsePomCall path],
                          projects := (projects st1)(PackageName q \<mapsto> q)\<rparr>)"
proof -
  have step: "walkFn P st1 path None =
           (st1\<lparr>trace := trace st1 @ [ParsePomCall path],
                projects := (projects st1)(PackageName q \<mapsto> q)\<rparr>, None)"
    using assms(3-5) by (simp add: walkFn_def retainedAt_def)
  then show ?thesis using Walk_reaches [OF assms(1), of path None es2] by simp
qed

theorem C4_witness:
  "projects (fst (Walk example_ParsePom
       ([(''grammars-v4/abnf/pom.xml'', None)] @ (''grammars-v4/rfc/pom.xml'', None) # []) init))
     ''abnf'' = Some rfc_project \<and>
   Walk example_ParsePom
       ([(''grammars-v4/abnf/pom.xml'', None)] @ (''grammars-v4/rfc/pom.xml'', None) # []) init =
     (\<lparr>projects = [''abnf'' \<mapsto> rfc_project],
       trace = [ParsePomCall ''grammars-v4/abnf/pom.xml'',
                ParsePomCall ''grammars-v4/rfc/pom.xml'']\<rparr>, None)"
proof -
  have 2: "projects \<lparr>projects = [''abnf'' \<mapsto> abnf_project],
       trace = [ParsePomCall ''grammars-v4/abnf/pom.xml'']\<rparr> (PackageName rfc_project) = Some abnf_project"
    by (simp add: rfc_project_def)
  have 3: "HasSuffix ''grammars-v4/rfc/pom.xml'' ''/pom.xml''"
    by (simp add: HasSuffix_def)
  have 4: "\<not> onIgnoreList ''grammars-v4/rfc/pom.xml''"
    by (simp add: onIgnoreList_def IGNORE_def HasSuffix_def)
  have 5: "retainedAt example_ParsePom ''grammars-v4/rfc/pom.xml'' rfc_project"
    by (simp add: retainedAt_def example_ParsePom_def rfc_project_def)
  show ?thesis
    using C4_later_descriptor_replaces_earlier [OF abnf_walk 2 3 4 5, of "[]"]
    by (simp add: rfc_project_def)
qed

subsection \<open>Parse errors\<close>

text \<open>
  Claim C7. Suppose the walk reaches without an error a descriptor that is not on the
  ignore list and whose parse fails. Then the run ends there: its events are those up
  to this descriptor, the parse call and the fatal \<^verbatim>\<open>failed to walk\<close> with the
  parser's error; no entry after it is visited, and no file is created.
\<close>
theorem C7_first_parse_error_aborts_run:
  assumes "entries w = es1 @ (path, None) # es2"
    and "Walk (ParsePom w) es1 init = (st1, None)"
    and "HasSuffix path ''/pom.xml''"
    and "\<not> onIgnoreList path"
    and "ParsePom w path = Inl e"
  shows "main w =
           \<lparr>events = trace st1 @ [ParsePomCall path, Fatalf ''failed to walk: %s'' [Str e]],
            makefile = None\<rparr>"
proof -
  have "walkFn (ParsePom w) st1 path None =
          (st1\<lparr>trace := trace st1 @ [ParsePomCall path]\<rparr>, Some e)"
    using assms(3-5) by (simp add: walkFn_def)
  then have "walk_projects w = (st1\<lparr>trace := trace st1 @ [ParsePomCall path]\<rparr>, Some e)"
    using Walk_reaches [OF assms(2), of path None es2] assms(1) by (simp add: walk_projects_def)
  then show ?thesis by (simp add: main_def main_data_def)
qed

theorem C7_witness:
  "main broken_world =
     \<lparr>events = [ParsePomCall ''grammars-v4/abnf/pom.xml'',
                ParsePomCall ''grammars-v4/broken/pom.xml'',
                Fatalf ''failed to walk: %s'' [Str ''XML syntax error'']],
      makefile = None\<rparr>"
proof -
  have P: "ParsePom broken_world = example_ParsePom"
    by (simp add: broken_world_def example_world_def)
  have 1: "entries broken_world =
      [(''grammars-v4/abnf/pom.xml'', None)] @ (''grammars-v4/broken/pom.xml'', None) #
      [(''grammars-v4/json/pom.xml'', None)]"
    by (simp add: broken_world_def example_world_def)
  have 2: "Walk (ParsePom broken_world) [(''grammars-v4/abnf/pom.xml'', None)] init =
     (\<lparr>projects = [''abnf'' \<mapsto> abnf_project],
       trace = [ParsePomCall ''grammars-v4/abnf/pom.xml'']\<rparr>, None)"
    unfolding P by (rule abnf_walk)
  have 3: "HasSuffix ''grammars-v4/broken/pom.xml'' ''/pom.xml''"
    by (simp add: HasSuffix_def)
  have 4: "\<not> onIgnoreList ''grammars-v4/broken/pom.xml''"
    by (simp add: onIgnoreList_def IGNORE_def HasSuffix_def)
  have 5: "ParsePom broken_world ''grammars-v4/broken/pom.xml'' = Inl ''XML syntax error''"
    unfolding P by (simp add: example_ParsePom_def)
  show ?thesis
    using C7_first_parse_error_aborts_run [OF 1 2 3 4 5] by simp
qed

subsection \<open>Entries that are not descriptors\<close>

text \<open>
  Claim C10. On an entry whose path does not end in \<^verbatim>\<open>/pom.xml\<close> the function leaves
  the map and the events as they are and returns the error the walk passed in (none for
  an entry reached without error); and every path the parser is called on in a run ends
  in \<^verbatim>\<open>/pom.xml\<close>.
\<close>
theorem C10_only_pom_xml_entries_are_descriptors:
  "(\<not> HasSuffix path ''/pom.xml'' \<longrightarrow> walkFn P st path err = (st, err)) \<and>
   (ParsePomCall path \<in> set (events (main w)) \<longrightarrow> HasSuffix path ''/pom.xml'')"
  using walk_projects_calls [of path w] by (simp add: walkFn_def main_calls)

theorem C10_witness:
  "walkFn example_ParsePom init ''grammars-v4/abnf/Abnf.g4'' None = (init, None) \<and>
   ParsePomCall ''grammars-v4/abnf/pom.xml'' \<in> set (events (main abnf_json_world)) \<and>
   HasSuffix ''grammars-v4/abnf/pom.xml'' ''/pom.xml''"
proof -
  have 1: "\<not> HasSuffix ''grammars-v4/abnf/Abnf.g4'' ''/pom.xml''"
    by (simp add: HasSuffix_def)
  have 2: "ParsePomCall ''grammars-v4/abnf/pom.xml'' \<in> set (events (main abnf_json_world))"
    by (simp add: main_calls abnf_json_walk)
  show ?thesis
    using C10_only_pom_xml_entries_are_descriptors
      [of "''grammars-v4/abnf/Abnf.g4''" example_ParsePom init None abnf_json_world]
      C10_only_pom_xml_entries_are_descriptors
      [of "''grammars-v4/abnf/pom.xml''" example_ParsePom init None abnf_json_world]
      1 2 by blast
qed

subsection \<open>The ignore list\<close>

text \<open>
  Claim C6. Let the path end in \<^verbatim>\<open>"/"+ignore+"/pom.xml"\<close> for a name of the ignore
  list. Then no run calls the parser on it; the run (events, template data, file) stays
  the same whatever the parser would return on it; and an entry for it that the walk
  reaches without error can be removed from the tree without changing the run.
\<close>
theorem C6_ignored_descriptor_is_never_parsed:
  assumes "ignore \<in> set IGNORE"
    and "HasSuffix path (''/'' @ ignore @ ''/pom.xml'')"
  shows "ParsePomCall path \<notin> set (events (main w)) \<and>
         main_data (w\<lparr>ParsePom := (ParsePom w)(path := res)\<rparr>) = main_data w \<and>
         main (w\<lparr>ParsePom := (ParsePom w)(path := res)\<rparr>) = main w \<and>
         (entries w = es1 @ (path, None) # es2 \<longrightarrow>
            main_data (w\<lparr>entries := es1 @ es2\<rparr>) = main_data w \<and>
            main (w\<lparr>entries := es1 @ es2\<rparr>) = main w)"
proof -
  have ign: "onIgnoreList path" using assms onIgnoreList_iff by blast
  have 1: "ParsePomCall path \<notin> set (events (main w))"
    using walk_projects_calls [of path w] ign by (auto simp: main_calls)
  have "walk_projects (w\<lparr>ParsePom := (ParsePom w)(path := res)\<rparr>) = walk_projects w"
    using ign by (simp add: walk_projects_def Walk_parser_update)
  then have 2: "main_data (w\<lparr>ParsePom := (ParsePom w)(path := res)\<rparr>) = main_data w"
    by (rule main_data_cong) simp_all
  then have 3: "main (w\<lparr>ParsePom := (ParsePom w)(path := res)\<rparr>) = main w"
    by (rule main_cong) simp_all
  have 4: "main_data (w\<lparr>entries := es1 @ es2\<rparr>) = main_data w \<and>
           main (w\<lparr>entries := es1 @ es2\<rparr>) = main w"
    if e: "entries w = es1 @ (path, None) # es2"
  proof -
    have "walk_projects (w\<lparr>entries := es1 @ es2\<rparr>) = walk_projects w"
      using ign e by (simp add: walk_projects_def Walk_skip_ignored)
    then have d: "main_data (w\<lparr>entries := es1 @ es2\<rparr>) = main_data w"
      by (rule main_data_cong) simp_all
    then have "main (w\<lparr>entries := es1 @ es2\<rparr>) = main w"
      by (rule main_cong) simp_all
    then show ?thesis using d by simp
  qed
  show ?thesis using 1 2 3 4 by blast
qed

theorem C6_witness:
  "''objc'' \<in> set IGNORE \<and>
   HasSuffix ''grammars-v4/objc/pom.xml'' (''/'' @ ''objc'' @ ''/pom.xml'') \<and>
   ParsePomCall ''grammars-v4/objc/pom.xml'' \<notin> set (events (main objc_world)) \<and>
   main (objc_world\<lparr>ParsePom := (ParsePom objc_world)
           (''grammars-v4/objc/pom.xml'' := Inr json_project)\<rparr>) = main objc_world \<and>
   main (objc_world\<lparr>entries := [(''grammars-v4/abnf/pom.xml'', None)] @ []\<rparr>) = main objc_world"
proof -
  have 1: "''objc'' \<in> set IGNORE" by (simp add: IGNORE_def)
  have 2: "HasSuffix ''grammars-v4/objc/pom.xml'' (''/'' @ ''objc'' @ ''/pom.xml'')"
    by (simp add: HasSuffix_def)
  have 3: "entries objc_world =
      [(''grammars-v4/abnf/pom.xml'', None)] @ (''grammars-v4/objc/pom.xml'', None) # []"
    by (simp add: objc_world_def example_world_def)
  show ?thesis
    using C6_ignored_descriptor_is_never_parsed
      [OF 1 2, of objc_world "Inr json_project" "[(''grammars-v4/abnf/pom.xml'', None)]" "[]"]
      1 2 3 by blast
qed

subsection \<open>Descriptors without grammars\<close>

text \<open>
  The log line of claim C8 is not printed for every descriptor without grammars: for one
  that does not configure the plugin either, the check of the plugin comes first and
  returns silently. On the tree with this single descriptor the parser is called and
  no line is logged.
\<close>
theorem C8_counterexample:
  "ParsePom plain_world ''grammars-v4/plain/pom.xml'' = Inr plain_project \<and>
   Includes plain_project = [] \<and>
   fst (main_data plain_world) = [ParsePomCall ''grammars-v4/plain/pom.xml'']"
  by (simp add: plain_world_def main_data_def example_eval)

text \<open>
  Claim C8, amended. Suppose the walk reaches without an error a descriptor that is not
  on the ignore list and whose parse yields a project without grammars. Then the call
  on it changes nothing but the events, to which it adds the parse call and, when the
  plugin is configured, the log line \<^verbatim>\<open>skipping ... as it contains no grammars\<close>;
  it returns no error; and the template data and the file are those of the run on the
  tree without this entry.
\<close>
theorem C8_empty_includes_skipped_logged_with_plugin:
  assumes "entries w = es1 @ (path, None) # es2"
    and "Walk (ParsePom w) es1 init = (st1, None)"
    and "HasSuffix path ''/pom.xml''"
    and "\<not> onIgnoreList path"
    and "ParsePom w path = Inr p"
    and "Includes p = []"
  shows "walkFn (ParsePom w) st1 path None =
           (st1\<lparr>trace := trace st1 @ ParsePomCall path #
               (if FoundAntlr4MavenPlugin p
                then [Printf ''skipping %q as it contains no grammars'' [Str path]]
                else [])\<rparr>, None) \<and>
         snd (main_data w) = snd (main_data (w\<lparr>entries := es1 @ es2\<rparr>)) \<and>
         makefile (main w) = makefile (main (w\<lparr>entries := es1 @ es2\<rparr>))"
proof -
  let ?t = "trace st1 @ ParsePomCall path #
               (if FoundAntlr4MavenPlugin p
                then [Printf ''skipping %q as it contains no grammars'' [Str path]]
                else [])"
  let ?w' = "w\<lparr>entries := es1 @ es2\<rparr>"
  have step: "walkFn (ParsePom w) st1 path None = (st1\<lparr>trace := ?t\<rparr>, None)"
    using assms(3-6) by (simp add: walkFn_def)
  have W: "walk_projects w = Walk (ParsePom w) es2 (st1\<lparr>trace := ?t\<rparr>)"
    using Walk_reaches [OF assms(2), of path None es2] assms(1) step
    by (simp add: walk_projects_def)
  have W': "walk_projects ?w' = Walk (ParsePom w) es2 st1"
    using assms(2) by (simp add: walk_projects_def Walk_append)
  have d: "snd (main_data w) = snd (main_data ?w')"
    by (rule main_data_snd_cong) (simp_all add: W W' Walk_trace_irrelevant)
  have "makefile (main w) = makefile (main ?w')"
    by (simp add: makefile_main d cong: option.case_cong)
  then show ?thesis using step d by simp
qed

theorem C8_witness:
  "walkFn (ParsePom empty_world)
      \<lparr>projects = [''abnf'' \<mapsto> abnf_project],
        trace = [ParsePomCall ''grammars-v4/abnf/pom.xml'']\<rparr>
      ''grammars-v4/empty/pom.xml'' None =
     (\<lparr>projects = [''abnf'' \<mapsto> abnf_project],
       trace = [ParsePomCall ''grammars-v4/abnf/pom.xml'',
                ParsePomCall ''grammars-v4/empty/pom.xml'',
                Printf ''skipping %q as it contains no grammars''
                  [Str ''grammars-v4/empty/pom.xml'']]\<rparr>, None) \<and>
   snd (main_data empty_world) =
     snd (main_data (empty_world\<lparr>entries := [(''grammars-v4/abnf/pom.xml'', None)] @ []\<rparr>)) \<and>
   makefile (main empty_world) =
     makefile (main (empty_world\<lparr>entries := [(''grammars-v4/abnf/pom.xml'', None)] @ []\<rparr>))"
proof -
  have P: "ParsePom empty_world = example_ParsePom"
    by (simp add: empty_world_def example_world_def)
  have 1: "entries empty_world =
      [(''grammars-v4/abnf/pom.xml'', None)] @ (''grammars-v4/empty/pom.xml'', None) # []"
    by (simp add: empty_world_def example_world_def)
  have 2: "Walk (ParsePom empty_world) [(''grammars-v4/abnf/pom.xml'', None)] init =
     (\<lparr>projects = [''abnf'' \<mapsto> abnf_project],
       trace = [ParsePomCall ''grammars-v4/abnf/pom.xml'']\<rparr>, None)"
    unfolding P by (rule abnf_walk)
  have 3: "HasSuffix ''grammars-v4/empty/pom.xml'' ''/pom.xml''"
    by (simp add: HasSuffix_def)
  have 4: "\<not> onIgnoreList ''grammars-v4/empty/pom.xml''"
    by (simp add: onIgnoreList_def IGNORE_def HasSuffix_def)
  have 5: "ParsePom empty_world ''grammars-v4/empty/pom.xml'' = Inr empty_project"
    unfolding P by (simp add: example_ParsePom_def)
  have 6: "Includes empty_project = []" by (simp add: empty_project_def)
  have 7: "FoundAntlr4MavenPlugin empty_project" by (simp add: empty_project_def)
  show ?thesis
    using C8_empty_includes_skipped_logged_with_plugin [OF 1 2 3 4 5 6] 7 by simp
qed

subsection \<open>The generated files\<close>

lemma generated_loop_eq:
  "generated_loop name files generated =
     generated @ prefixed name files"
  by (induction files arbitrary: generated) (auto simp: prefixed_def)

lemma length_prefixed [simp]: "length (prefixed name files) = length files"
  by (simp add: prefixed_def)

lemma generatedFiles_loop_step:
  "generatedFiles_loop ((name, project) # rest) gf =
     (if length (GeneratedFilenames project) < 2 then
        Inl (Fatalf ''Expect atleast two generated files, only got: %q for %q''
               [Strs (prefixed name (GeneratedFilenames project)), Str name])
      else generatedFiles_loop rest (gf(name \<mapsto> prefixed name (GeneratedFilenames project))))"
  by (simp add: generated_loop_eq Let_def)

lemma generatedFiles_loop_Inr:
  "generatedFiles_loop kvs gf = Inr gf' \<Longrightarrow> distinct (map fst kvs) \<Longrightarrow>
     gf' = (\<lambda>name. case map_of kvs name of
                      Some p \<Rightarrow> Some (prefixed name (GeneratedFilenames p))
                    | None \<Rightarrow> gf name) \<and>
     (\<forall>name p. map_of kvs name = Some p \<longrightarrow> 2 \<le> length (GeneratedFilenames p))"
proof (induction kvs arbitrary: gf)
  case Nil
  then show ?case by simp
next
  case (Cons a rest)
  obtain name project where a: "a = (name, project)" by (cases a)
  let ?gen = "prefixed name (GeneratedFilenames project)"
  have len: "\<not> length (GeneratedFilenames project) < 2"
    using Cons.prems(1) unfolding a generatedFiles_loop_step by (auto split: if_splits)
  then have rest: "generatedFiles_loop rest (gf(name \<mapsto> ?gen)) = Inr gf'"
    using Cons.prems(1) unfolding a generatedFiles_loop_step by simp
  have d: "distinct (map fst rest)" and notin: "name \<notin> fst ` set rest"
    using Cons.prems(2) a by auto
  have none: "map_of rest name = None" using notin by (simp add: map_of_eq_None_iff)
  note ih = Cons.IH [OF rest d]
  have "gf' n = (case map_of (a # rest) n of
                      Some p \<Rightarrow> Some (prefixed n (GeneratedFilenames p))
                    | None \<Rightarrow> gf n)" for n
  proof (cases "n = name")
    case True
    have "gf' name = (gf(name \<mapsto> ?gen)) name" using ih none by simp
    then show ?thesis using True a by simp
  next
    case False
    have "gf' n = (case map_of rest n of
                      Some p \<Rightarrow> Some (prefixed n (GeneratedFilenames p))
                    | None \<Rightarrow> (gf(name \<mapsto> ?gen)) n)" using ih by simp
    then show ?thesis using False a by (simp split: option.splits)
  qed
  then have 1: "gf' = (\<lambda>n. case map_of (a # rest) n of
                      Some p \<Rightarrow> Some (prefixed n (GeneratedFilenames p))
                    | None \<Rightarrow> gf n)" by (rule ext)
  have 2: "\<forall>n p. map_of (a # rest) n = Some p \<longrightarrow> 2 \<le> length (GeneratedFilenames p)"
    using ih len a by auto
  show ?case using 1 2 by (rule conjI)
qed

lemma generatedFiles_loop_Inl:
  "generatedFiles_loop kvs gf = Inl ev \<Longrightarrow>
     \<exists>name p. (name, p) \<in> set kvs \<and> length (GeneratedFilenames p) < 2 \<and>
        ev = Fatalf ''Expect atleast two generated files, only got: %q for %q''
               [Strs (prefixed name (GeneratedFilenames p)), Str name]"
proof (induction kvs arbitrary: gf)
  case Nil
  then show ?case by simp
next
  case (Cons a rest)
  obtain name project where a: "a = (name, project)" by (cases a)
  show ?case
  proof (cases "length (GeneratedFilenames project) < 2")
    case True
    then have "ev = Fatalf ''Expect atleast two generated files, only got: %q for %q''
               [Strs (prefixed name (GeneratedFilenames project)), Str name]"
      using Cons.prems unfolding a generatedFiles_loop_step by simp
    then show ?thesis using True a by auto
  next
    case False
    then have "generatedFiles_loop rest
        (gf(name \<mapsto> prefixed name (GeneratedFilenames project))) = Inl ev"
      using Cons.prems unfolding a generatedFiles_loop_step by simp
    from Cons.IH [OF this] show ?thesis by auto
  qed
qed

lemma generatedFiles_loop_all_good:
  "\<forall>(name, p) \<in> set kvs. 2 \<le> length (GeneratedFilenames p) \<Longrightarrow>
     \<exists>gf'. generatedFiles_loop kvs gf = Inr gf'"
proof (cases "generatedFiles_loop kvs gf")
  case (Inl ev)
  assume good: "\<forall>(name, p) \<in> set kvs. 2 \<le> length (GeneratedFilenames p)"
  from generatedFiles_loop_Inl [OF Inl] obtain name p where
    "(name, p) \<in> set kvs" "length (GeneratedFilenames p) < 2" by blast
  then show ?thesis using good by fastforce
next
  case (Inr gf')
  then show ?thesis by simp
qed

lemma rangeOrder_set:
  "rangeOrder m kvs \<Longrightarrow> (name, p) \<in> set kvs \<longleftrightarrow> m name = Some p"
  unfolding rangeOrder_def using map_of_eq_Some_iff by fastforce

lemma rangeOrder_keys:
  "rangeOrder m kvs \<Longrightarrow> set (map fst kvs) = dom m"
  by (simp add: rangeOrder_def dom_map_of_conv_image_fst [symmetric])

text \<open>
  Claim C9. When the run gets as far as the template data, and the second loop ran
  over an enumeration of the project map, the map of generated files has the keys of
  the project map, and under every name it holds the project's generated file names,
  in their order, each prefixed by the name and \<^verbatim>\<open>/\<close>.
\<close>

theorem C9_generated_files_follow_projects:
  assumes "main_data w = (evs, Some data)"
    and "rangeOrder (Projects data) (range2 w)"
  shows "dom (GeneratedFiles data) = dom (Projects data) \<and>
         (\<forall>name p. Projects data name = Some p \<longrightarrow>
            GeneratedFiles data name =
              Some (prefixed name (GeneratedFilenames p)))"
proof -
  obtain st r where W: "walk_projects w = (st, r)" by fastforce
  have r: "r = None" using assms(1) W by (cases r) (simp_all add: main_data_def)
  obtain gf where G: "generatedFiles_loop (range2 w) Map.empty = Inr gf"
    using assms(1) W r
    by (cases "generatedFiles_loop (range2 w) Map.empty") (simp_all add: main_data_def)
  have data: "Projects data = projects st" "GeneratedFiles data = gf"
    using assms(1) W r G by (auto simp: main_data_def)
  have ro: "distinct (map fst (range2 w))" "map_of (range2 w) = Projects data"
    using assms(2) by (simp_all add: rangeOrder_def)
  have gf: "gf = (\<lambda>name. case Projects data name of
                      Some p \<Rightarrow> Some (prefixed name (GeneratedFilenames p))
                    | None \<Rightarrow> None)"
    using generatedFiles_loop_Inr [OF G ro(1)] ro(2) by simp
  have "dom gf = dom (Projects data)"
    unfolding gf by (auto split: option.splits)
  moreover have "\<forall>name p. Projects data name = Some p \<longrightarrow>
            gf name = Some (prefixed name (GeneratedFilenames p))"
    unfolding gf by simp
  ultimately show ?thesis using data(2) by simp
qed

lemma abnf_json_data:
  "main_data abnf_json_world =
     ([ParsePomCall ''grammars-v4/abnf/pom.xml'', ParsePomCall ''grammars-v4/json/pom.xml''],
      Some \<lparr>Grammars = [''abnf'', ''json''],
            Projects = [''abnf'' \<mapsto> abnf_project, ''json'' \<mapsto> json_project],
            GeneratedFiles =
              [''abnf'' \<mapsto> [''abnf/abnf_lexer.go'', ''abnf/abnf_parser.go''],
               ''json'' \<mapsto> [''json/json_lexer.go'', ''json/json_parser.go'']]\<rparr>)"
proof -
  have r: "range1 abnf_json_world = [(''json'', json_project), (''abnf'', abnf_project)]"
      "range2 abnf_json_world = [(''abnf'', abnf_project), (''json'', json_project)]"
    by (simp_all add: abnf_json_world_def example_world_def)
  show ?thesis
    unfolding main_data_def abnf_json_walk r
    by (simp add: example_projects)
qed

lemma abnf_json_orders:
  "rangeOrder [''abnf'' \<mapsto> abnf_project, ''json'' \<mapsto> json_project]
     [(''json'', json_project), (''abnf'', abnf_project)]"
  "rangeOrder [''abnf'' \<mapsto> abnf_project, ''json'' \<mapsto> json_project]
     [(''abnf'', abnf_project), (''json'', json_project)]"
  by (auto simp: rangeOrder_def fun_eq_iff)

theorem C9_witness:
  "dom (GeneratedFiles (the (snd (main_data abnf_json_world)))) = {''abnf'', ''json''} \<and>
   GeneratedFiles (the (snd (main_data abnf_json_world))) ''json'' =
     Some [''json/json_lexer.go'', ''json/json_parser.go'']"
proof -
  let ?data = "\<lparr>Grammars = [''abnf'', ''json''],
            Projects = [''abnf'' \<mapsto> abnf_project, ''json'' \<mapsto> json_project],
            GeneratedFiles =
              [''abnf'' \<mapsto> [''abnf/abnf_lexer.go'', ''abnf/abnf_parser.go''],
               ''json'' \<mapsto> [''json/json_lexer.go'', ''json/json_parser.go'']]\<rparr>"
  have 2: "rangeOrder (Projects ?data) (range2 abnf_json_world)"
    using abnf_json_orders(2) by (simp add: abnf_json_world_def example_world_def)
  have p: "Projects ?data ''json'' = Some json_project" by simp
  show ?thesis
    using C9_generated_files_follow_projects [OF abnf_json_data 2] p
    by (auto simp: abnf_json_data prefixed_def json_project_def)
qed

subsection \<open>Fewer than two generated files\<close>

lemma walkFn_no_output:
  "walkFn P st path err = (st', r) \<Longrightarrow> \<forall>e \<in> set (trace st). \<not> touches_output e \<Longrightarrow>
     \<forall>e \<in> set (trace st'). \<not> touches_output e"
  by (auto simp: walkFn_def Let_def split: if_splits sum.splits)

lemma Walk_no_output:
  "Walk P es st = (st', r) \<Longrightarrow> \<forall>e \<in> set (trace st). \<not> touches_output e \<Longrightarrow>
     \<forall>e \<in> set (trace st'). \<not> touches_output e"
proof (induction es arbitrary: st)
  case Nil
  then show ?case by simp
next
  case (Cons a es)
  obtain path err where a: "a = (path, err)" by (cases a)
  obtain s1 r1 where w: "walkFn P st path err = (s1, r1)" by fastforce
  note n1 = walkFn_no_output [OF w Cons.prems(2)]
  show ?case
  proof (cases r1)
    case (Some e)
    then have "st' = s1" using Cons.prems(1) a w by simp
    then show ?thesis using n1 by simp
  next
    case None
    then have rest: "Walk P es s1 = (st', r)" using Cons.prems(1) a w by simp
    show ?thesis by (rule Cons.IH [OF rest n1])
  qed
qed

lemma walk_projects_no_output:
  "walk_projects w = (st, r) \<Longrightarrow> \<forall>e \<in> set (trace st). \<not> touches_output e"
  unfolding walk_projects_def by (erule Walk_no_output) (simp add: init_def)

text \<open>
  Claim C2. Let the walk end without error and the second loop run over an enumeration
  of the project map. If the run gets as far as the template data, every project of the
  map has its prefixed generated file names in the map of generated files, and they
  are at least two. If some project of the map has fewer than two generated files, the
  run ends with the fatal \<^verbatim>\<open>Expect atleast two generated files\<close>, which names such a
  project and its files; the events of the run are those of the walk and this one, none
  of them touches the output file, and no file is created.
\<close>
theorem C2_fewer_than_two_generated_files_is_fatal:
  assumes "walk_projects w = (st, None)"
    and "rangeOrder (projects st) (range2 w)"
  shows "(main_data w = (evs, Some data) \<longrightarrow>
            (\<forall>name p. projects st name = Some p \<longrightarrow>
               GeneratedFiles data name = Some (prefixed name (GeneratedFilenames p)) \<and>
               2 \<le> length (prefixed name (GeneratedFilenames p)))) \<and>
         ((\<exists>name p. projects st name = Some p \<and> length (GeneratedFilenames p) < 2) \<longrightarrow>
            (\<exists>name p. projects st name = Some p \<and> length (GeneratedFilenames p) < 2 \<and>
               events (main w) = trace st @
                 [Fatalf ''Expect atleast two generated files, only got: %q for %q''
                    [Strs (prefixed name (GeneratedFilenames p)), Str name]]) \<and>
            makefile (main w) = None \<and>
            (\<forall>e \<in> set (events (main w)). \<not> touches_output e))"
proof (cases "generatedFiles_loop (range2 w) Map.empty")
  case (Inl ev)
  obtain name p where np: "(name, p) \<in> set (range2 w)" "length (GeneratedFilenames p) < 2"
      "ev = Fatalf ''Expect atleast two generated files, only got: %q for %q''
               [Strs (prefixed name (GeneratedFilenames p)), Str name]"
    using generatedFiles_loop_Inl [OF Inl] by blast
  have p: "projects st name = Some p" using rangeOrder_set [OF assms(2)] np(1) by simp
  have d: "main_data w = (trace st @ [ev], None)"
    using assms(1) Inl by (simp add: main_data_def)
  then have m: "main w = \<lparr>events = trace st @ [ev], makefile = None\<rparr>"
    by (simp add: main_def)
  have "\<forall>e \<in> set (events (main w)). \<not> touches_output e"
    using walk_projects_no_output [OF assms(1)] m np(3) by simp
  then show ?thesis using d m p np(2,3) by auto
next
  case (Inr gf)
  have ro: "distinct (map fst (range2 w))" "map_of (range2 w) = projects st"
    using assms(2) by (simp_all add: rangeOrder_def)
  note g = generatedFiles_loop_Inr [OF Inr ro(1), unfolded ro(2)]
  have d: "main_data w =
      (trace st, Some \<lparr>Grammars = sort (grammars_loop (range1 w) []), Projects = projects st,
                       GeneratedFiles = gf\<rparr>)"
    using assms(1) Inr by (simp add: main_data_def)
  have good: "\<forall>name p. projects st name = Some p \<longrightarrow> 2 \<le> length (GeneratedFilenames p)"
    using g by blast
  have "\<forall>name p. projects st name = Some p \<longrightarrow>
               gf name = Some (prefixed name (GeneratedFilenames p))"
    using g by simp
  then have 1: "main_data w = (evs, Some data) \<longrightarrow>
            (\<forall>name p. projects st name = Some p \<longrightarrow>
               GeneratedFiles data name = Some (prefixed name (GeneratedFilenames p)) \<and>
               2 \<le> length (prefixed name (GeneratedFilenames p)))"
    using d good by auto
  have 2: "\<not> (\<exists>name p. projects st name = Some p \<and> length (GeneratedFilenames p) < 2)"
    using good by fastforce
  show ?thesis using 1 2 by blast
qed

lemma tiny_walk:
  "walk_projects tiny_world =
     (\<lparr>projects = [''abnf'' \<mapsto> abnf_project, ''tiny'' \<mapsto> tiny_project],
       trace = [ParsePomCall ''grammars-v4/abnf/pom.xml'',
                ParsePomCall ''grammars-v4/tiny/pom.xml'']\<rparr>, None)"
  by (simp add: tiny_world_def example_eval)

theorem C2_witness:
  "GeneratedFiles (the (snd (main_data abnf_json_world))) ''abnf'' =
     Some (prefixed ''abnf'' (GeneratedFilenames abnf_project)) \<and>
   2 \<le> length (prefixed ''abnf'' (GeneratedFilenames abnf_project)) \<and>
   projects (fst (walk_projects tiny_world)) ''tiny'' = Some tiny_project \<and>
   length (GeneratedFilenames tiny_project) < 2 \<and>
   events (main tiny_world) =
     [ParsePomCall ''grammars-v4/abnf/pom.xml'', ParsePomCall ''grammars-v4/tiny/pom.xml'',
      Fatalf ''Expect atleast two generated files, only got: %q for %q''
        [Strs [''tiny/tiny_parser.go''], Str ''tiny'']] \<and>
   makefile (main tiny_world) = None"
proof -
  have o1: "rangeOrder (projects \<lparr>projects = [''abnf'' \<mapsto> abnf_project, ''json'' \<mapsto> json_project],
       trace = [ParsePomCall ''grammars-v4/abnf/pom.xml'',
                ParsePomCall ''grammars-v4/json/pom.xml'']\<rparr>) (range2 abnf_json_world)"
    using abnf_json_orders(2) by (simp add: abnf_json_world_def example_world_def)
  have o2: "rangeOrder (projects \<lparr>projects = [''abnf'' \<mapsto> abnf_project, ''tiny'' \<mapsto> tiny_project],
       trace = [ParsePomCall ''grammars-v4/abnf/pom.xml'',
                ParsePomCall ''grammars-v4/tiny/pom.xml'']\<rparr>) (range2 tiny_world)"
    by (auto simp: rangeOrder_def fun_eq_iff tiny_world_def example_world_def)
  have bad: "length (GeneratedFilenames tiny_project) < 2" by (simp add: tiny_project_def)
  note a = C2_fewer_than_two_generated_files_is_fatal [OF abnf_json_walk o1]
  note b = C2_fewer_than_two_generated_files_is_fatal [OF tiny_walk o2]
  have good: "abnf_project \<noteq> tiny_project \<and> 2 \<le> length (GeneratedFilenames abnf_project)"
    by (simp add: abnf_project_def tiny_project_def)
  have pa: "projects \<lparr>projects = [''abnf'' \<mapsto> abnf_project, ''json'' \<mapsto> json_project],
       trace = [ParsePomCall ''grammars-v4/abnf/pom.xml'',
                ParsePomCall ''grammars-v4/json/pom.xml'']\<rparr> ''abnf'' = Some abnf_project"
    by simp
  have 1: "GeneratedFiles (the (snd (main_data abnf_json_world))) ''abnf'' =
     Some (prefixed ''abnf'' (GeneratedFilenames abnf_project)) \<and>
   2 \<le> length (prefixed ''abnf'' (GeneratedFilenames abnf_project))"
    using a [THEN conjunct1, rule_format, OF abnf_json_data pa]
    by (simp add: abnf_json_data)
  let ?st = "\<lparr>projects = [''abnf'' \<mapsto> abnf_project, ''tiny'' \<mapsto> tiny_project],
       trace = [ParsePomCall ''grammars-v4/abnf/pom.xml'',
                ParsePomCall ''grammars-v4/tiny/pom.xml'']\<rparr>"
  have ex: "\<exists>name p. projects ?st name = Some p \<and> length (GeneratedFilenames p) < 2"
    by (rule exI [of _ "''tiny''"], rule exI [of _ tiny_project]) (simp add: bad)
  from b [THEN conjunct2, rule_format, OF ex] obtain name p where
    np: "projects ?st name = Some p" "length (GeneratedFilenames p) < 2"
      "events (main tiny_world) = trace ?st @
         [Fatalf ''Expect atleast two generated files, only got: %q for %q''
            [Strs (prefixed name (GeneratedFilenames p)), Str name]]"
    and mk: "makefile (main tiny_world) = None"
    by blast
  have "name = ''tiny'' \<and> p = tiny_project"
    using np(1,2) good by (auto split: if_splits)
  then have 2: "events (main tiny_world) =
     [ParsePomCall ''grammars-v4/abnf/pom.xml'', ParsePomCall ''grammars-v4/tiny/pom.xml'',
      Fatalf ''Expect atleast two generated files, only got: %q for %q''
        [Strs [''tiny/tiny_parser.go''], Str ''tiny'']] \<and>
   makefile (main tiny_world) = None"
    using np(3) mk by (simp add: prefixed_def tiny_project_def)
  show ?thesis using 1 2 bad by (simp add: tiny_walk)
qed

subsection \<open>The order of the map\<close>

lemma grammars_loop_eq: "grammars_loop kvs grammars = grammars @ map fst kvs"
  by (induction kvs grammars rule: grammars_loop.induct) auto

lemma sort_range:
  assumes "rangeOrder m kvs"
  shows "sort (grammars_loop kvs []) = sorted_list_of_set (dom m)"
proof -
  have d: "distinct (map fst kvs)" using assms by (simp add: rangeOrder_def)
  have "sorted_list_of_set (set (map fst kvs)) = sort (remdups (map fst kvs))"
    by (rule sorted_list_of_set_sort_remdups)
  then show ?thesis
    using d rangeOrder_keys [OF assms] by (simp add: grammars_loop_eq distinct_remdups_id)
qed

lemma generatedFiles_loop_order:
  assumes "rangeOrder m kvs" and "rangeOrder m kvs'"
  shows "generatedFiles_loop kvs gf = Inr g \<Longrightarrow> generatedFiles_loop kvs' gf = Inr g"
proof -
  assume G: "generatedFiles_loop kvs gf = Inr g"
  have ro: "distinct (map fst kvs)" "map_of kvs = m" "distinct (map fst kvs')" "map_of kvs' = m"
    using assms by (simp_all add: rangeOrder_def)
  note g = generatedFiles_loop_Inr [OF G ro(1), unfolded ro(2)]
  have "\<forall>(name, p) \<in> set kvs'. 2 \<le> length (GeneratedFilenames p)"
    using g rangeOrder_set [OF assms(2)] by auto
  then obtain g' where G': "generatedFiles_loop kvs' gf = Inr g'"
    using generatedFiles_loop_all_good by blast
  note g' = generatedFiles_loop_Inr [OF G' ro(3), unfolded ro(4)]
  show ?thesis using g g' G' by simp
qed

lemma generatedFiles_loop_order_fatal:
  assumes "rangeOrder m kvs" and "rangeOrder m kvs'"
  shows "generatedFiles_loop kvs gf = Inl ev \<Longrightarrow> \<exists>ev'. generatedFiles_loop kvs' gf = Inl ev'"
proof -
  assume F: "generatedFiles_loop kvs gf = Inl ev"
  show ?thesis
  proof (cases "generatedFiles_loop kvs' gf")
    case (Inl ev')
    then show ?thesis by simp
  next
    case (Inr g)
    from generatedFiles_loop_order [OF assms(2,1) Inr] F show ?thesis by simp
  qed
qed

text \<open>
  Claim C3. On the same tree, with the same parser and the same behaviour of the file,
  the content of the Makefile does not depend on the order in which the runtime
  enumerates the project map in the two \<^verbatim>\<open>range\<close> statements. The list of names handed
  to the template is sorted in the order of strings, without repetition, and holds the
  keys of the project map.
\<close>
theorem C3_makefile_independent_of_range_order:
  assumes "rangeOrder (projects (fst (walk_projects w))) (range1 w)"
    and "rangeOrder (projects (fst (walk_projects w))) (range2 w)"
    and "rangeOrder (projects (fst (walk_projects w))) ks1"
    and "rangeOrder (projects (fst (walk_projects w))) ks2"
  shows "makefile (main (w\<lparr>range1 := ks1, range2 := ks2\<rparr>)) = makefile (main w) \<and>
         (main_data w = (evs, Some data) \<longrightarrow>
            sorted (Grammars data) \<and> distinct (Grammars data) \<and>
            set (Grammars data) = dom (Projects data))"
proof -
  let ?w' = "w\<lparr>range1 := ks1, range2 := ks2\<rparr>"
  obtain st r where W: "walk_projects w = (st, r)" by fastforce
  have W': "walk_projects ?w' = (st, r)" using W by (simp add: walk_projects_def)
  have st: "projects (fst (walk_projects w)) = projects st" using W by simp
  have fin: "finite (dom (projects st))"
    using rangeOrder_keys [OF assms(1)] st by (metis List.finite_set)
  have gr: "sort (grammars_loop ks1 []) = sort (grammars_loop (range1 w) [])"
    using sort_range [OF assms(1)] sort_range [OF assms(3)] by simp
  have d: "snd (main_data ?w') = snd (main_data w)"
  proof (cases r)
    case (Some e)
    then show ?thesis using W W' by (simp add: main_data_def)
  next
    case None
    show ?thesis
    proof (cases "generatedFiles_loop (range2 w) Map.empty")
      case (Inl ev)
      from generatedFiles_loop_order_fatal [OF assms(2,4) Inl]
      obtain ev' where "generatedFiles_loop ks2 Map.empty = Inl ev'" by blast
      then show ?thesis using W W' None Inl by (simp add: main_data_def)
    next
      case (Inr g)
      from generatedFiles_loop_order [OF assms(2,4) Inr]
      have "generatedFiles_loop ks2 Map.empty = Inr g" .
      then show ?thesis using W W' None Inr gr by (simp add: main_data_def)
    qed
  qed
  have 1: "makefile (main ?w') = makefile (main w)"
    by (simp add: makefile_main d cong: option.case_cong)
  have 2: "sorted (Grammars data) \<and> distinct (Grammars data) \<and>
            set (Grammars data) = dom (Projects data)"
    if m: "main_data w = (evs, Some data)"
  proof -
    have r: "r = None" using m W by (cases r) (simp_all add: main_data_def)
    obtain g where "generatedFiles_loop (range2 w) Map.empty = Inr g"
      using m W r by (cases "generatedFiles_loop (range2 w) Map.empty") (simp_all add: main_data_def)
    then have "Grammars data = sort (grammars_loop (range1 w) [])" "Projects data = projects st"
      using m W r by (auto simp: main_data_def)
    then have "Grammars data = sorted_list_of_set (dom (Projects data))"
      using sort_range [OF assms(1)] st by simp
    then show ?thesis using fin \<open>Projects data = projects st\<close> by simp
  qed
  show ?thesis using 1 2 by blast
qed

theorem C3_witness:
  "makefile (main (abnf_json_world
       \<lparr>range1 := [(''abnf'', abnf_project), (''json'', json_project)],
        range2 := [(''json'', json_project), (''abnf'', abnf_project)]\<rparr>)) =
     makefile (main abnf_json_world) \<and>
   Grammars (the (snd (main_data abnf_json_world))) = [''abnf'', ''json''] \<and>
   sorted (Grammars (the (snd (main_data abnf_json_world))))"
proof -
  have p: "projects (fst (walk_projects abnf_json_world)) =
      [''abnf'' \<mapsto> abnf_project, ''json'' \<mapsto> json_project]"
    by (simp add: abnf_json_walk)
  have r: "range1 abnf_json_world = [(''json'', json_project), (''abnf'', abnf_project)]"
      "range2 abnf_json_world = [(''abnf'', abnf_project), (''json'', json_project)]"
    by (simp_all add: abnf_json_world_def example_world_def)
  have 1: "rangeOrder (projects (fst (walk_projects abnf_json_world))) (range1 abnf_json_world)"
    unfolding p r by (rule abnf_json_orders(1))
  have 2: "rangeOrder (projects (fst (walk_projects abnf_json_world))) (range2 abnf_json_world)"
    unfolding p r by (rule abnf_json_orders(2))
  have 3: "rangeOrder (projects (fst (walk_projects abnf_json_world)))
      [(''abnf'', abnf_project), (''json'', json_project)]"
    unfolding p by (rule abnf_json_orders(2))
  have 4: "rangeOrder (projects (fst (walk_projects abnf_json_world)))
      [(''json'', json_project), (''abnf'', abnf_project)]"
    unfolding p by (rule abnf_json_orders(1))
  note t = C3_makefile_independent_of_range_order [OF 1 2 3 4]
  have "sorted (Grammars (the (snd (main_data abnf_json_world))))"
    using t [THEN conjunct2, rule_format, OF abnf_json_data] by (simp add: abnf_json_data)
  then show ?thesis using t [THEN conjunct1] by (simp add: abnf_json_data)
qed

subsection \<open>Rendering\<close>

lemma abnf_json_rangeSorted:
  "rangeSorted [''abnf'' \<mapsto> abnf_project, ''json'' \<mapsto> json_project] =
     [(''abnf'', abnf_project), (''json'', json_project)]"
  by (simp add: rangeSorted_def)

lemma abnf_projectRules:
  "projectRules
     \<lparr>Grammars = [''abnf'', ''json''],
      Projects = [''abnf'' \<mapsto> abnf_project, ''json'' \<mapsto> json_project],
      GeneratedFiles =
        [''abnf'' \<mapsto> [''abnf/abnf_lexer.go'', ''abnf/abnf_parser.go''],
         ''json'' \<mapsto> [''json/json_lexer.go'', ''json/json_parser.go'']]\<rparr>
     (''abnf'', abnf_project) =
   (NL @ NL @
    ''abnf: abnf/abnf_test.go'' @ NL @
    ''abnf/abnf_lexer.go abnf/abnf_parser.go: grammars-v4/abnf/Abnf.g4'' @ NL @
    ''abnf/abnf_test.go: abnf/abnf_lexer.go abnf/abnf_parser.go'', None)"
  by (simp add: projectRules_def index_def Concat_def abnf_project_def)

lemma abnf_json_testTargets:
  "range_exec testTarget [(''abnf'', abnf_project), (''json'', json_project)] =
     (''abnf/abnf_test.go json/json_test.go '', None)"
  by (simp add: testTarget_def then_exec_def example_projects)

lemma then_exec_error: "snd a = Some e \<Longrightarrow> then_exec a b = a"
  by (cases a) (simp add: then_exec_def)

lemma render_head: "take (length MAKEFILE_head) (fst (render data)) = MAKEFILE_head"
  by (simp add: render_def then_exec_def split: prod.splits option.splits)

lemma Execute_template_error:
  assumes "render data = (text, Some terr)"
  shows "\<exists>written err. Execute wfail data = (written, Some err) \<and>
           written = take (length written) text \<and>
           (wfail = None \<longrightarrow> written = text \<and> err = terr)"
proof (cases wfail)
  case None
  then show ?thesis using assms by (simp add: Execute_def)
next
  case (Some ne)
  obtain n e where ne: "ne = (n, e)" by (cases ne)
  show ?thesis
  proof (cases "n < length text")
    case True
    then have "Execute wfail data = (take n text, Some e)"
      using assms Some ne by (simp add: Execute_def)
    moreover have "take n text = take (length (take n text)) text" using True by simp
    ultimately show ?thesis using Some by auto
  next
    case False
    then have "Execute wfail data = (text, Some terr)"
      using assms Some ne by (simp add: Execute_def)
    then show ?thesis using Some by simp
  qed
qed

lemma noprefix_data:
  "main_data noprefix_world =
     ([ParsePomCall ''grammars-v4/noprefix/pom.xml''],
      Some \<lparr>Grammars = [''noprefix''],
            Projects = [''noprefix'' \<mapsto> noprefix_project],
            GeneratedFiles = [''noprefix'' \<mapsto> [''noprefix/a_lexer.go'', ''noprefix/a_parser.go'']]\<rparr>)"
proof -
  have w: "walk_projects noprefix_world =
     (\<lparr>projects = [''noprefix'' \<mapsto> noprefix_project],
       trace = [ParsePomCall ''grammars-v4/noprefix/pom.xml'']\<rparr>, None)"
    by (simp add: noprefix_world_def example_eval)
  have r: "range1 noprefix_world = [(''noprefix'', noprefix_project)]"
      "range2 noprefix_world = [(''noprefix'', noprefix_project)]"
    by (simp_all add: noprefix_world_def example_world_def)
  show ?thesis
    unfolding main_data_def w r by (simp add: noprefix_project_def)
qed

lemma noprefix_render:
  "render \<lparr>Grammars = [''noprefix''],
            Projects = [''noprefix'' \<mapsto> noprefix_project],
            GeneratedFiles = [''noprefix'' \<mapsto> [''noprefix/a_lexer.go'', ''noprefix/a_parser.go'']]\<rparr> =
     (MAKEFILE_head @ ''noprefix'' @ MAKEFILE_rules @ ''noprefix/'',
      Some ''can not evaluate field FilePrefix'')"
proof -
  have rs: "rangeSorted [''noprefix'' \<mapsto> noprefix_project] = [(''noprefix'', noprefix_project)]"
    by (simp add: rangeSorted_def)
  have tt: "testTarget (''noprefix'', noprefix_project) =
      (''noprefix/'', Some ''can not evaluate field FilePrefix'')"
    by (simp add: testTarget_def noprefix_project_def)
  show ?thesis
    by (simp add: render_def rs tt then_exec_def)
qed

text \<open>
  A failed substitution does not leave the destination untouched: the file is created
  before \<^verbatim>\<open>Execute\<close> runs, and \<^verbatim>\<open>Execute\<close> writes as it goes. On a project whose
  \<^verbatim>\<open>FilePrefix\<close> cannot be read, with a file that takes every write, the run ends
  fatally and the Makefile holds the text up to the failing action.
\<close>

theorem C5_counterexample:
  "render (the (snd (main_data noprefix_world))) =
     (MAKEFILE_head @ ''noprefix'' @ MAKEFILE_rules @ ''noprefix/'',
      Some ''can not evaluate field FilePrefix'') \<and>
   write_failure noprefix_world = None \<and>
   events (main noprefix_world) =
     [ParsePomCall ''grammars-v4/noprefix/pom.xml'', Create ''Makefile'',
      WriteOut (MAKEFILE_head @ ''noprefix'' @ MAKEFILE_rules @ ''noprefix/''),
      Fatalf ''failed to generate Makefile: %s'' [Str ''can not evaluate field FilePrefix'']] \<and>
   makefile (main noprefix_world) =
     Some (MAKEFILE_head @ ''noprefix'' @ MAKEFILE_rules @ ''noprefix/'')"
proof -
  have c: "create_error noprefix_world = None" "write_failure noprefix_world = None"
    by (simp_all add: noprefix_world_def example_world_def)
  have e: "Execute None
      \<lparr>Grammars = [''noprefix''],
            Projects = [''noprefix'' \<mapsto> noprefix_project],
            GeneratedFiles = [''noprefix'' \<mapsto> [''noprefix/a_lexer.go'', ''noprefix/a_parser.go'']]\<rparr> =
     (MAKEFILE_head @ ''noprefix'' @ MAKEFILE_rules @ ''noprefix/'',
      Some ''can not evaluate field FilePrefix'')"
    unfolding Execute_def noprefix_render by simp
  have m: "main noprefix_world =
     \<lparr>events = [ParsePomCall ''grammars-v4/noprefix/pom.xml'', Create ''Makefile'',
      WriteOut (MAKEFILE_head @ ''noprefix'' @ MAKEFILE_rules @ ''noprefix/''),
      Fatalf ''failed to generate Makefile: %s'' [Str ''can not evaluate field FilePrefix'']],
      makefile = Some (MAKEFILE_head @ ''noprefix'' @ MAKEFILE_rules @ ''noprefix/'')\<rparr>"
    unfolding main_def noprefix_data by (simp add: c e)
  show ?thesis using m c(2) noprefix_render by (simp add: noprefix_data)
qed

text \<open>
  Claim C5, amended. When a substitution of the template fails, the run ends with the
  fatal \<^verbatim>\<open>failed to generate Makefile\<close>; by then the Makefile has been created, and
  it holds what was written before the failure: with a file that takes every write, the
  text of the template up to the failing action, which begins with the fixed head of
  the Makefile.
\<close>

theorem C5_failed_render_leaves_partial_file:
  assumes "main_data w = (evs, Some data)"
    and "create_error w = None"
    and "render data = (text, Some terr)"
  shows "\<exists>written err.
           events (main w) =
             evs @ [Create ''Makefile'', WriteOut written,
                    Fatalf ''failed to generate Makefile: %s'' [Str err]] \<and>
           makefile (main w) = Some written \<and>
           written = take (length written) text \<and>
           (write_failure w = None \<longrightarrow>
              written = text \<and> err = terr \<and>
              take (length MAKEFILE_head) written = MAKEFILE_head)"
proof -
  from Execute_template_error [OF assms(3), of "write_failure w"]
  obtain written where "\<exists>err. Execute (write_failure w) data = (written, Some err) \<and>
           written = take (length written) text \<and>
           (write_failure w = None \<longrightarrow> written = text \<and> err = terr)" ..
  then obtain err where y: "Execute (write_failure w) data = (written, Some err) \<and>
           written = take (length written) text \<and>
           (write_failure w = None \<longrightarrow> written = text \<and> err = terr)" ..
  note x = y [THEN conjunct1] y [THEN conjunct2, THEN conjunct1]
    y [THEN conjunct2, THEN conjunct2]
  have m: "main w =
      \<lparr>events = evs @ [Create ''Makefile'', WriteOut written,
                  Fatalf ''failed to generate Makefile: %s'' [Str err]],
       makefile = Some written\<rparr>"
    using assms(1,2) x(1) by (simp add: main_def)
  have h: "take (length MAKEFILE_head) text = MAKEFILE_head"
    using render_head [of data] assms(3) by simp
  have "events (main w) =
             evs @ [Create ''Makefile'', WriteOut written,
                    Fatalf ''failed to generate Makefile: %s'' [Str err]] \<and>
           makefile (main w) = Some written \<and>
           written = take (length written) text \<and>
           (write_failure w = None \<longrightarrow>
              written = text \<and> err = terr \<and>
              take (length MAKEFILE_head) written = MAKEFILE_head)"
    using m x(2,3) h by simp
  then show ?thesis by (intro exI)
qed

theorem C5_witness:
  "create_error noprefix_world = None \<and>
   write_failure noprefix_world = None \<and>
   makefile (main noprefix_world) =
     Some (MAKEFILE_head @ ''noprefix'' @ MAKEFILE_rules @ ''noprefix/'') \<and>
   last (events (main noprefix_world)) =
     Fatalf ''failed to generate Makefile: %s'' [Str ''can not evaluate field FilePrefix'']"
proof -
  have c: "create_error noprefix_world = None" "write_failure noprefix_world = None"
    by (simp_all add: noprefix_world_def example_world_def)
  from C5_failed_render_leaves_partial_file [OF noprefix_data c(1) noprefix_render]
  obtain written where "\<exists>err.
      events (main noprefix_world) =
         [ParsePomCall ''grammars-v4/noprefix/pom.xml''] @
         [Create ''Makefile'', WriteOut written,
          Fatalf ''failed to generate Makefile: %s'' [Str err]] \<and>
      makefile (main noprefix_world) = Some written \<and>
      written = take (length written)
         (MAKEFILE_head @ ''noprefix'' @ MAKEFILE_rules @ ''noprefix/'') \<and>
      (write_failure noprefix_world = None \<longrightarrow>
         written = MAKEFILE_head @ ''noprefix'' @ MAKEFILE_rules @ ''noprefix/'' \<and>
         err = ''can not evaluate field FilePrefix'' \<and>
         take (length MAKEFILE_head) written = MAKEFILE_head)" ..
  then obtain err where y:
     "events (main noprefix_world) =
         [ParsePomCall ''grammars-v4/noprefix/pom.xml''] @
         [Create ''Makefile'', WriteOut written,
          Fatalf ''failed to generate Makefile: %s'' [Str err]] \<and>
      makefile (main noprefix_world) = Some written \<and>
      written = take (length written)
         (MAKEFILE_head @ ''noprefix'' @ MAKEFILE_rules @ ''noprefix/'') \<and>
      (write_failure noprefix_world = None \<longrightarrow>
         written = MAKEFILE_head @ ''noprefix'' @ MAKEFILE_rules @ ''noprefix/'' \<and>
         err = ''can not evaluate field FilePrefix'' \<and>
         take (length MAKEFILE_head) written = MAKEFILE_head)" ..
  note x = y [THEN conjunct1] y [THEN conjunct2, THEN conjunct1]
    y [THEN conjunct2, THEN conjunct2, THEN conjunct2]
  show ?thesis using x c by simp
qed

end
